theory Spec2Isabelle
  imports Main "HOL-Library.Sublist"
begin

section \<open>Python objects and the environment of \<open>allowed_functions.py\<close>\<close>

text \<open>
  The module \<open>torch/_dynamo/allowed_functions.py\<close> classifies objects by \<open>id(obj)\<close>. An
  identity is a natural number. Of an object the module reads only the attributes below, so
  an object is a record of them:
  \<^item> \<open>obj_name\<close> and \<open>obj_module\<close>: \<open>obj.__name__\<close> and \<open>obj.__module__\<close>;
  \<^item> \<open>module_dict\<close>: \<open>Some (list(obj.__dict__.items()))\<close> exactly when
    \<open>isinstance(obj, types.ModuleType)\<close>; a binding holds the identity of the bound object,
    so a namespace graph may contain cycles;
  \<^item> \<open>getmodule\<close>: for an object that is not a module, the \<open>__name__\<close> of
    \<open>inspect.getmodule(obj)\<close>, \<open>None\<close> when that call returns \<open>None\<close>;
  \<^item> \<open>callable\<close>: \<open>callable(obj)\<close>; \<open>safe_constant\<close>: \<open>is_safe_constant(obj)\<close> of
    \<open>torch/_dynamo/utils.py\<close>;
  \<^item> \<open>is_dtype\<close>: \<open>isinstance(obj, type(torch.float32))\<close>; \<open>is_storage_class\<close>:
    \<open>isinstance(obj, type(torch.FloatStorage))\<close>; \<open>is_method_descriptor\<close>:
    \<open>isinstance(obj, types.MethodDescriptorType)\<close>; \<open>is_op_dispatch\<close>:
    \<open>isinstance(obj, (OpOverloadPacket, OpOverload, _OpNamespace))\<close>;
  \<^item> \<open>setattr_error\<close>: what the assignment \<open>obj._dynamo_forbidden = True\<close> raises, \<open>None\<close>
    when it succeeds (it raises \<open>AttributeError\<close> on a builtin function and \<open>TypeError\<close>
    on a builtin class such as \<open>collections.OrderedDict\<close>).
\<close>

type_synonym oid = nat

datatype pyerr = AssertionError | IncorrectUsage | AttributeError | TypeError

record pyobject =
  obj_name :: string
  obj_module :: string
  module_dict :: "(string \<times> oid) list option"
  getmodule :: "string option"
  callable :: bool
  safe_constant :: bool
  is_dtype :: bool
  is_storage_class :: bool
  is_method_descriptor :: bool
  is_op_dispatch :: bool
  setattr_error :: "pyerr option"

text \<open>
  The heap is a finite association list from identities to objects. An identity without an
  entry stands for an object the module learns nothing from: not a module, not callable, a
  safe constant.
\<close>

definition unknown_object :: pyobject where
  "unknown_object =
     \<lparr>obj_name = [], obj_module = [], module_dict = None, getmodule = None,
      callable = False, safe_constant = True, is_dtype = False, is_storage_class = False,
      is_method_descriptor = False, is_op_dispatch = False,
      setattr_error = Some AttributeError\<rparr>"

text \<open>
  What the module takes from its imports: the heap; the modules \<open>torch\<close> and \<open>math\<close>;
  \<open>tensor_dir\<close>, the pairs \<open>(name, getattr(torch.Tensor, name))\<close> for \<open>name\<close> in
  \<open>dir(torch.Tensor)\<close>; the functions \<open>is_fx_tracing\<close> and \<open>is_compiling\<close>;
  \<open>ignorelist\<close>, the value of \<open>config.allowed_functions_module_string_ignorelist\<close>; and
  \<open>remove_listed\<close>, the identities of the objects written out in the list \<open>remove\<close> of
  \<open>_disallowed_function_ids\<close> (\<open>True\<close>, \<open>False\<close>, \<open>None\<close>, \<open>copy.copy\<close>, ...).
\<close>

record env =
  heap :: "(oid \<times> pyobject) list"
  torch :: oid
  math :: oid
  tensor_dir :: "(string \<times> oid) list"
  is_fx_tracing :: oid
  is_compiling :: oid
  ignorelist :: "string list"
  remove_listed :: "oid list"

definition obj_of :: "env \<Rightarrow> oid \<Rightarrow> pyobject" where
  "obj_of e i = (case map_of (heap e) i of Some ob \<Rightarrow> ob | None \<Rightarrow> unknown_object)"

text \<open>\<open>s.startswith(p)\<close>.\<close>

definition startswith :: "string \<Rightarrow> string \<Rightarrow> bool" where
  "startswith s p = prefix p s"

text \<open>\<open>inspect.getmodule(obj)\<close> returns a module object itself.\<close>

definition inspect_getmodule :: "pyobject \<Rightarrow> string option" where
  "inspect_getmodule ob =
     (case module_dict ob of Some d \<Rightarrow> Some (obj_name ob) | None \<Rightarrow> getmodule ob)"

definition dict_items :: "pyobject \<Rightarrow> (string \<times> oid) list" where
  "dict_items ob = (case module_dict ob of Some d \<Rightarrow> d | None \<Rightarrow> [])"

section \<open>The discovery pass\<close>

text \<open>The local function \<open>_is_allowed_module_prefix\<close> and its three tuples.\<close>

definition allowed_modules :: "string list" where
  "allowed_modules = [''torch'', ''math'']"

definition disallowed_modules :: "string list" where
  "disallowed_modules =
     [''torch.optim.'', ''torch.nn.modules.rnn.'', ''torch._dynamo.'', ''torch._C._dynamo.'',
      ''torch._inductor.'', ''torch._C.inductor.'', ''torch.fx.'', ''torch.distributed.fsdp.'']"

definition allowed_modules_dot :: "string list" where
  "allowed_modules_dot = map (\<lambda>x. x @ ''.'') allowed_modules"

definition is_allowed_module_prefix :: "pyobject \<Rightarrow> bool" where
  "is_allowed_module_prefix ob =
     (case inspect_getmodule ob of
        None \<Rightarrow> False
      | Some mod_name \<Rightarrow>
          if list_ex (startswith mod_name) disallowed_modules then False
          else mod_name \<in> set allowed_modules \<or> list_ex (startswith mod_name) allowed_modules_dot)"

text \<open>
  The dictionary \<open>torch_object_ids\<close> is a map from identities to names, and
  \<open>dotted a b\<close> is the f-string \<open>f"{a}.{b}"\<close>.
\<close>

type_synonym names = "oid \<rightharpoonup> string"

definition dotted :: "string \<Rightarrow> string \<Rightarrow> string" where
  "dotted a b = a @ ''.'' @ b"

text \<open>
  \<open>_find_torch_objects(module)\<close>, with the dictionary it updates passed in and returned;
  \<open>scan_items\<close> is its \<open>for name, obj in list(module.__dict__.items())\<close> loop. The recursion
  is the source's own: a module is entered only when its identity has no entry yet, and the
  entry is written just before the call. The source calls the function on modules only;
  an object that is not a module has no bindings here.
\<close>

function find_torch_objects :: "env \<Rightarrow> oid \<Rightarrow> names \<Rightarrow> names"
  and scan_items :: "env \<Rightarrow> string \<Rightarrow> (string \<times> oid) list \<Rightarrow> names \<Rightarrow> names"
where
  "find_torch_objects e module ids =
     (if list_ex (startswith (obj_name (obj_of e module))) (ignorelist e) then ids
      else scan_items e (obj_name (obj_of e module)) (dict_items (obj_of e module))
             (ids(module \<mapsto> obj_name (obj_of e module))))"
| "scan_items e mname [] ids = ids"
| "scan_items e mname ((name, c) # rest) ids =
     scan_items e mname rest
       (if ids c = None then
          (if module_dict (obj_of e c) \<noteq> None then
             (if startswith (obj_name (obj_of e c)) ''torch.'' \<and> is_allowed_module_prefix (obj_of e c)
              then find_torch_objects e c (ids(c \<mapsto> dotted mname name))
              else ids)
           else if is_allowed_module_prefix (obj_of e c) then ids(c \<mapsto> dotted mname name)
           else if inspect_getmodule (obj_of e c) = None \<and> \<not> safe_constant (obj_of e c)
                then ids(c \<mapsto> dotted mname name)
           else ids)
        else ids)"
  by pat_completeness auto

text \<open>
  Termination. The recursion is nested (the loop goes on with the dictionary the recursive
  call returns), so the proof first shows, on the domain of the recursion, that a call only
  adds keys. The measure is the number of heap identities without an entry, then the number
  of bindings left in the current loop.
\<close>

lemma dom_grows_partial:
  "find_torch_objects_scan_items_dom (Inl (e, module, ids)) \<Longrightarrow>
     dom ids \<subseteq> dom (find_torch_objects e module ids)"
  "find_torch_objects_scan_items_dom (Inr (e, mname, items, ids)) \<Longrightarrow>
     dom ids \<subseteq> dom (scan_items e mname items ids)"
proof (induct rule: find_torch_objects_scan_items.pinduct)
  case (1 e module ids)
  show ?case
  proof (cases "list_ex (startswith (obj_name (obj_of e module))) (ignorelist e)")
    case True
    with 1(1) show ?thesis by (simp add: find_torch_objects.psimps)
  next
    case False
    have "dom ids \<subseteq> dom (ids(module \<mapsto> obj_name (obj_of e module)))" by auto
    also have "\<dots> \<subseteq> dom (scan_items e (obj_name (obj_of e module)) (dict_items (obj_of e module))
                         (ids(module \<mapsto> obj_name (obj_of e module))))"
      using 1(2) [OF False] .
    finally show ?thesis using 1(1) False by (simp add: find_torch_objects.psimps)
  qed
next
  case (2 e mname ids)
  then show ?case by (simp add: scan_items.psimps)
next
  case (3 e mname name c rest ids)
  let ?new = "ids(c \<mapsto> dotted mname name)"
  let ?mid = "(if ids c = None then
          (if module_dict (obj_of e c) \<noteq> None then
             (if startswith (obj_name (obj_of e c)) ''torch.'' \<and> is_allowed_module_prefix (obj_of e c)
              then find_torch_objects e c ?new
              else ids)
           else if is_allowed_module_prefix (obj_of e c) then ?new
           else if inspect_getmodule (obj_of e c) = None \<and> \<not> safe_constant (obj_of e c)
                then ?new
           else ids)
        else ids)"
  have new: "dom ids \<subseteq> dom ?new" by auto
  have "dom ids \<subseteq> dom ?mid"
  proof (cases "ids c = None \<and> module_dict (obj_of e c) \<noteq> None \<and>
      startswith (obj_name (obj_of e c)) ''torch.'' \<and> is_allowed_module_prefix (obj_of e c)")
    case True
    then have eq: "?mid = find_torch_objects e c ?new" by simp
    have "dom ?new \<subseteq> dom (find_torch_objects e c ?new)"
      using True by (intro 3(2)) simp_all
    with new have "dom ids \<subseteq> dom (find_torch_objects e c ?new)" by (rule order_trans)
    then show ?thesis unfolding eq .
  next
    case False
    with new show ?thesis by auto
  qed
  also have "\<dots> \<subseteq> dom (scan_items e mname rest ?mid)"
    using 3(3) .
  finally show ?case using 3(1) by (simp add: scan_items.psimps)
qed

lemma unrecorded_le:
  "dom ids \<subseteq> dom ids' \<Longrightarrow>
     card (fst ` set (heap e) - dom ids') \<le> card (fst ` set (heap e) - dom ids)"
  by (rule card_mono) auto

lemma unrecorded_less:
  assumes "ids c = None" and "c \<in> fst ` set (heap e)"
  shows "card (fst ` set (heap e) - dom (ids(c \<mapsto> n))) < card (fst ` set (heap e) - dom ids)"
proof (rule psubset_card_mono)
  show "finite (fst ` set (heap e) - dom ids)" by simp
  show "fst ` set (heap e) - dom (ids(c \<mapsto> n)) \<subset> fst ` set (heap e) - dom ids"
    using assms by auto
qed

lemma module_in_heap: "module_dict (obj_of e c) \<noteq> None \<Longrightarrow> c \<in> fst ` set (heap e)"
  by (auto simp: obj_of_def unknown_object_def split: option.splits dest!: map_of_SomeD
      intro: rev_image_eqI)

lemma find_torch_objects_total: "All find_torch_objects_scan_items_dom"
proof (relation "(\<lambda>x. case x of
          Inl (e, module, ids) \<Rightarrow> card (fst ` set (heap e) - dom ids)
        | Inr (e, mname, items, ids) \<Rightarrow> card (fst ` set (heap e) - dom ids))
      <*mlex*> measure (\<lambda>x. case x of
          Inl (e, module, ids) \<Rightarrow> Suc (length (dict_items (obj_of e module)))
        | Inr (e, mname, items, ids) \<Rightarrow> length items)", goal_cases)
  case 1
  show ?case by (simp add: wf_mlex)
next
  case (2 e module ids)
  have "card (fst ` set (heap e) - dom (ids(module \<mapsto> obj_name (obj_of e module))))
          \<le> card (fst ` set (heap e) - dom ids)"
    by (rule unrecorded_le) auto
  then show ?case by (intro mlex_leq) simp_all
next
  case (3 e mname name c rest ids)
  then have "c \<in> fst ` set (heap e)" by (intro module_in_heap) simp
  with 3 have "card (fst ` set (heap e) - dom (ids(c \<mapsto> dotted mname name)))
          < card (fst ` set (heap e) - dom ids)"
    by (intro unrecorded_less) simp_all
  then show ?case by (intro mlex_less) simp
next
  case (4 e mname name c rest ids)
  let ?new = "ids(c \<mapsto> dotted mname name)"
  let ?mid = "(if ids c = None then
          (if module_dict (obj_of e c) \<noteq> None then
             (if startswith (obj_name (obj_of e c)) ''torch.'' \<and> is_allowed_module_prefix (obj_of e c)
              then find_torch_objects e c ?new
              else ids)
           else if is_allowed_module_prefix (obj_of e c) then ?new
           else if inspect_getmodule (obj_of e c) = None \<and> \<not> safe_constant (obj_of e c)
                then ?new
           else ids)
        else ids)"
  have new: "dom ids \<subseteq> dom ?new" by auto
  have "dom ids \<subseteq> dom ?mid"
  proof (cases "ids c = None \<and> module_dict (obj_of e c) \<noteq> None \<and>
      startswith (obj_name (obj_of e c)) ''torch.'' \<and> is_allowed_module_prefix (obj_of e c)")
    case True
    then have eq: "?mid = find_torch_objects e c ?new" by simp
    have "dom ?new \<subseteq> dom (find_torch_objects e c ?new)"
      using True by (intro dom_grows_partial(1) 4) simp_all
    with new have "dom ids \<subseteq> dom (find_torch_objects e c ?new)" by (rule order_trans)
    then show ?thesis unfolding eq .
  next
    case False
    with new show ?thesis by auto
  qed
  then have "card (fst ` set (heap e) - dom ?mid) \<le> card (fst ` set (heap e) - dom ids)"
    by (rule unrecorded_le)
  then show ?case by (intro mlex_leq) simp_all
qed

termination find_torch_objects
  by (rule find_torch_objects_total)


declare find_torch_objects.simps [simp del]

text \<open>
  The loop \<open>for name in dir(torch.Tensor)\<close> of \<open>_allowed_function_ids\<close>: every method
  descriptor is written under \<open>torch.Tensor.{name}\<close>, whether or not it has an entry.
\<close>

fun tensor_methods :: "env \<Rightarrow> (string \<times> oid) list \<Rightarrow> names \<Rightarrow> names" where
  "tensor_methods e [] ids = ids"
| "tensor_methods e ((name, method) # rest) ids =
     tensor_methods e rest
       (if is_method_descriptor (obj_of e method)
        then ids(method \<mapsto> ''torch.Tensor.'' @ name) else ids)"

section \<open>\<open>FunctionIdSet\<close> and the two sets of the registry\<close>

text \<open>
  A lazy initializer returns a dictionary or a set. The two class attributes of
  \<open>FunctionIdSet\<close> start as \<open>None\<close>.
\<close>

datatype lazy_value = DictValue names | SetValue "oid set"

record function_id_set =
  function_ids :: "oid set option"
  function_names :: "names option"

text \<open>
  The state the module mutates: the objects \<open>_allowed_function_ids\<close> and
  \<open>_disallowed_function_ids\<close>, and the set of objects on which the attribute
  \<open>_dynamo_forbidden\<close> has been set.
\<close>

record registry =
  allowed_function_ids :: function_id_set
  disallowed_function_ids :: function_id_set
  dynamo_forbidden :: "oid set"

definition initial_registry :: registry where
  "initial_registry =
     \<lparr>allowed_function_ids = \<lparr>function_ids = None, function_names = None\<rparr>,
      disallowed_function_ids = \<lparr>function_ids = None, function_names = None\<rparr>,
      dynamo_forbidden = {}\<rparr>"

text \<open>
  The body of \<open>if self.function_ids is None:\<close> in \<open>__call__\<close>, given the value the
  initializer returned: a dictionary fills both attributes, a set only \<open>function_ids\<close>.
\<close>

definition store_value :: "lazy_value \<Rightarrow> function_id_set \<Rightarrow> oid set \<times> function_id_set" where
  "store_value v s =
     (case v of
        DictValue d \<Rightarrow> (dom d, s\<lparr>function_ids := Some (dom d), function_names := Some d\<rparr>)
      | SetValue x \<Rightarrow> (x, s\<lparr>function_ids := Some x\<rparr>))"

text \<open>
  The initializer \<open>_disallowed_function_ids\<close>: the listed objects, then the dtypes and the
  storage classes among \<open>torch.__dict__.values()\<close>; it returns a set.
\<close>

definition disallowed_init :: "env \<Rightarrow> oid set" where
  "disallowed_init e =
     (let torch_values = map snd (dict_items (obj_of e (torch e)));
          dtypes = filter (\<lambda>c. is_dtype (obj_of e c)) torch_values;
          storage = filter (\<lambda>c. is_storage_class (obj_of e c)) torch_values
      in set (remove_listed e @ dtypes @ storage))"

text \<open>\<open>_disallowed_function_ids()\<close>: \<open>__call__\<close> on the disallowed set.\<close>

definition disallowed_call :: "env \<Rightarrow> registry \<Rightarrow> oid set \<times> registry" where
  "disallowed_call e r =
     (case function_ids (disallowed_function_ids r) of
        Some x \<Rightarrow> (x, r)
      | None \<Rightarrow>
          (let (x, s) = store_value (SetValue (disallowed_init e)) (disallowed_function_ids r)
           in (x, r\<lparr>disallowed_function_ids := s\<rparr>)))"

text \<open>
  The initializer \<open>_allowed_function_ids\<close>: the walk from \<open>torch\<close> and from \<open>math\<close>, the
  tensor methods, the deletion of every identity that \<open>_disallowed_function_ids()\<close> returns
  (a call that initializes the disallowed set when it is not yet), and last the two extras,
  written after the deletion. It returns a dictionary.
\<close>

definition allowed_init :: "env \<Rightarrow> registry \<Rightarrow> lazy_value \<times> registry" where
  "allowed_init e r =
     (let ids1 = find_torch_objects e (torch e) Map.empty;
          ids2 = find_torch_objects e (math e) ids1;
          ids3 = tensor_methods e (tensor_dir e) ids2;
          (dis, r1) = disallowed_call e r;
          ids4 = ids3 |` (- dis);
          fx = obj_of e (is_fx_tracing e);
          ids5 = ids4(is_fx_tracing e \<mapsto> dotted (obj_module fx) (obj_name fx));
          cmp = obj_of e (is_compiling e);
          ids6 = ids5(is_compiling e \<mapsto> dotted (obj_module cmp) (obj_name cmp))
      in (DictValue ids6, r1))"

text \<open>\<open>_allowed_function_ids()\<close>: \<open>__call__\<close> on the allowed set.\<close>

definition allowed_call :: "env \<Rightarrow> registry \<Rightarrow> oid set \<times> registry" where
  "allowed_call e r =
     (case function_ids (allowed_function_ids r) of
        Some x \<Rightarrow> (x, r)
      | None \<Rightarrow>
          (let (v, r1) = allowed_init e r;
               (x, s) = store_value v (allowed_function_ids r1)
           in (x, r1\<lparr>allowed_function_ids := s\<rparr>)))"

text \<open>
  The other methods of \<open>FunctionIdSet\<close> are the same code for both objects; \<open>which_set\<close>
  says on which one a method runs.
\<close>

datatype which_set = Allowed | Disallowed

fun the_set :: "which_set \<Rightarrow> registry \<Rightarrow> function_id_set" where
  "the_set Allowed r = allowed_function_ids r"
| "the_set Disallowed r = disallowed_function_ids r"

fun put_set :: "which_set \<Rightarrow> function_id_set \<Rightarrow> registry \<Rightarrow> registry" where
  "put_set Allowed s r = r\<lparr>allowed_function_ids := s\<rparr>"
| "put_set Disallowed s r = r\<lparr>disallowed_function_ids := s\<rparr>"

fun fis_call :: "env \<Rightarrow> which_set \<Rightarrow> registry \<Rightarrow> oid set \<times> registry" where
  "fis_call e Allowed r = allowed_call e r"
| "fis_call e Disallowed r = disallowed_call e r"

text \<open>
  \<open>get_name\<close>: \<open>self()\<close>, then \<open>self.function_names.get(idx, default)\<close>. When
  \<open>function_names\<close> is still \<open>None\<close> the attribute lookup \<open>.get\<close> raises \<open>AttributeError\<close>.
\<close>

definition fis_get_name ::
  "env \<Rightarrow> which_set \<Rightarrow> oid \<Rightarrow> string \<Rightarrow> registry \<Rightarrow> (pyerr + string) \<times> registry" where
  "fis_get_name e w idx dflt r =
     (let (x, r1) = fis_call e w r
      in (case function_names (the_set w r1) of
            None \<Rightarrow> (Inl AttributeError, r1)
          | Some d \<Rightarrow> (Inr (case d idx of Some n \<Rightarrow> n | None \<Rightarrow> dflt), r1)))"

text \<open>\<open>add\<close>: \<open>self()\<close>, then \<open>self.function_ids.add(idx)\<close>.\<close>

definition fis_add :: "env \<Rightarrow> which_set \<Rightarrow> oid \<Rightarrow> registry \<Rightarrow> registry" where
  "fis_add e w idx r =
     (let (x, r1) = fis_call e w r
      in put_set w ((the_set w r1)\<lparr>function_ids := Some (insert idx x)\<rparr>) r1)"

text \<open>\<open>remove\<close>: \<open>if idx in self(): self.function_ids.remove(idx)\<close>.\<close>

definition fis_remove :: "env \<Rightarrow> which_set \<Rightarrow> oid \<Rightarrow> registry \<Rightarrow> registry" where
  "fis_remove e w idx r =
     (let (x, r1) = fis_call e w r
      in if idx \<in> x then put_set w ((the_set w r1)\<lparr>function_ids := Some (x - {idx})\<rparr>) r1
         else r1)"

text \<open>\<open>__contains__\<close>: \<open>idx in self()\<close>.\<close>

definition fis_contains :: "env \<Rightarrow> which_set \<Rightarrow> oid \<Rightarrow> registry \<Rightarrow> bool \<times> registry" where
  "fis_contains e w idx r = (let (x, r1) = fis_call e w r in (idx \<in> x, r1))"

section \<open>Queries and overrides\<close>

definition is_allowed :: "env \<Rightarrow> oid \<Rightarrow> registry \<Rightarrow> bool \<times> registry" where
  "is_allowed e obj r =
     (let (b, r1) = fis_contains e Allowed obj r in (b \<or> is_op_dispatch (obj_of e obj), r1))"

definition torch_get_name ::
  "env \<Rightarrow> oid \<Rightarrow> string \<Rightarrow> registry \<Rightarrow> (pyerr + string) \<times> registry" where
  "torch_get_name e obj dflt r = fis_get_name e Allowed obj dflt r"

text \<open>
  An argument of the three entry points is an object, a list or a tuple. On a list or tuple
  each entry point returns the list comprehension \<open>[f(x) for x in fn]\<close>: the elements are
  processed in order, the first exception ends the call, and what the earlier elements
  did to the registry stays.
\<close>

datatype pyval = Ref oid | PyList "pyval list" | PyTuple "pyval list"

fun allow_in_graph :: "env \<Rightarrow> pyval \<Rightarrow> registry \<Rightarrow> (pyerr + pyval) \<times> registry"
  and allow_each :: "env \<Rightarrow> pyval list \<Rightarrow> registry \<Rightarrow> (pyerr + pyval list) \<times> registry"
where
  "allow_in_graph e (PyList fns) r =
     (case allow_each e fns r of
        (Inl err, r1) \<Rightarrow> (Inl err, r1)
      | (Inr ys, r1) \<Rightarrow> (Inr (PyList ys), r1))"
| "allow_in_graph e (PyTuple fns) r =
     (case allow_each e fns r of
        (Inl err, r1) \<Rightarrow> (Inl err, r1)
      | (Inr ys, r1) \<Rightarrow> (Inr (PyList ys), r1))"
| "allow_in_graph e (Ref fn) r =
     (if \<not> callable (obj_of e fn) then (Inl AssertionError, r)
      else (Inr (Ref fn), fis_remove e Disallowed fn (fis_add e Allowed fn r)))"
| "allow_each e [] r = (Inr [], r)"
| "allow_each e (x # xs) r =
     (case allow_in_graph e x r of
        (Inl err, r1) \<Rightarrow> (Inl err, r1)
      | (Inr y, r1) \<Rightarrow>
          (case allow_each e xs r1 of
             (Inl err, r2) \<Rightarrow> (Inl err, r2)
           | (Inr ys, r2) \<Rightarrow> (Inr (y # ys), r2)))"

text \<open>
  \<open>_disallow_in_graph_helper(throw_if_not_allowed)\<close>. On a list or tuple \<open>inner\<close> calls the
  public \<open>disallow_in_graph\<close> on each element, which is the helper with
  \<open>throw_if_not_allowed=True\<close>. The test \<open>not is_allowed(fn)\<close> runs only when the flag is
  set.
\<close>

fun disallow_in_graph_helper ::
    "env \<Rightarrow> bool \<Rightarrow> pyval \<Rightarrow> registry \<Rightarrow> (pyerr + pyval) \<times> registry"
  and disallow_each :: "env \<Rightarrow> pyval list \<Rightarrow> registry \<Rightarrow> (pyerr + pyval list) \<times> registry"
where
  "disallow_in_graph_helper e throw_if_not_allowed (PyList fns) r =
     (case disallow_each e fns r of
        (Inl err, r1) \<Rightarrow> (Inl err, r1)
      | (Inr ys, r1) \<Rightarrow> (Inr (PyList ys), r1))"
| "disallow_in_graph_helper e throw_if_not_allowed (PyTuple fns) r =
     (case disallow_each e fns r of
        (Inl err, r1) \<Rightarrow> (Inl err, r1)
      | (Inr ys, r1) \<Rightarrow> (Inr (PyList ys), r1))"
| "disallow_in_graph_helper e throw_if_not_allowed (Ref fn) r =
     (if \<not> callable (obj_of e fn) then (Inl AssertionError, r)
      else if throw_if_not_allowed then
        (case is_allowed e fn r of
           (False, r1) \<Rightarrow> (Inl IncorrectUsage, r1)
         | (True, r1) \<Rightarrow> (Inr (Ref fn), fis_add e Disallowed fn (fis_remove e Allowed fn r1)))
      else (Inr (Ref fn), fis_add e Disallowed fn (fis_remove e Allowed fn r)))"
| "disallow_each e [] r = (Inr [], r)"
| "disallow_each e (x # xs) r =
     (case disallow_in_graph_helper e True x r of
        (Inl err, r1) \<Rightarrow> (Inl err, r1)
      | (Inr y, r1) \<Rightarrow>
          (case disallow_each e xs r1 of
             (Inl err, r2) \<Rightarrow> (Inl err, r2)
           | (Inr ys, r2) \<Rightarrow> (Inr (y # ys), r2)))"

definition disallow_in_graph :: "env \<Rightarrow> pyval \<Rightarrow> registry \<Rightarrow> (pyerr + pyval) \<times> registry" where
  "disallow_in_graph e fn r = disallow_in_graph_helper e True fn r"

text \<open>
  \<open>forbid_in_graph\<close>: after the assertion, the assignment \<open>fn._dynamo_forbidden = True\<close>
  raises what the object raises on it, or sets the attribute.
\<close>

fun forbid_in_graph :: "env \<Rightarrow> pyval \<Rightarrow> registry \<Rightarrow> (pyerr + pyval) \<times> registry"
  and forbid_each :: "env \<Rightarrow> pyval list \<Rightarrow> registry \<Rightarrow> (pyerr + pyval list) \<times> registry"
where
  "forbid_in_graph e (PyList fns) r =
     (case forbid_each e fns r of
        (Inl err, r1) \<Rightarrow> (Inl err, r1)
      | (Inr ys, r1) \<Rightarrow> (Inr (PyList ys), r1))"
| "forbid_in_graph e (PyTuple fns) r =
     (case forbid_each e fns r of
        (Inl err, r1) \<Rightarrow> (Inl err, r1)
      | (Inr ys, r1) \<Rightarrow> (Inr (PyList ys), r1))"
| "forbid_in_graph e (Ref fn) r =
     (if \<not> callable (obj_of e fn) then (Inl AssertionError, r)
      else (case setattr_error (obj_of e fn) of
              Some err \<Rightarrow> (Inl err, r)
            | None \<Rightarrow> (Inr (Ref fn), r\<lparr>dynamo_forbidden := insert fn (dynamo_forbidden r)\<rparr>)))"
| "forbid_each e [] r = (Inr [], r)"
| "forbid_each e (x # xs) r =
     (case forbid_in_graph e x r of
        (Inl err, r1) \<Rightarrow> (Inl err, r1)
      | (Inr y, r1) \<Rightarrow>
          (case forbid_each e xs r1 of
             (Inl err, r2) \<Rightarrow> (Inl err, r2)
           | (Inr ys, r2) \<Rightarrow> (Inr (y # ys), r2)))"

text \<open>
  Sequences of operations on the registry: discovery (\<open>_allowed_function_ids()\<close>), the
  query \<open>is_allowed\<close>, the three entry points, and the helper without the strict test (the
  decorator on \<open>graph_break\<close>). An operation that raises keeps the registry it reached.
\<close>

datatype action =
    Discover
  | Query oid
  | Allow pyval
  | Disallow pyval
  | DisallowNonStrict pyval
  | Forbid pyval

fun perform :: "env \<Rightarrow> action \<Rightarrow> registry \<Rightarrow> registry" where
  "perform e Discover r = snd (allowed_call e r)"
| "perform e (Query obj) r = snd (is_allowed e obj r)"
| "perform e (Allow fn) r = snd (allow_in_graph e fn r)"
| "perform e (Disallow fn) r = snd (disallow_in_graph e fn r)"
| "perform e (DisallowNonStrict fn) r = snd (disallow_in_graph_helper e False fn r)"
| "perform e (Forbid fn) r = snd (forbid_in_graph e fn r)"

fun perform_all :: "env \<Rightarrow> action list \<Rightarrow> registry \<Rightarrow> registry" where
  "perform_all e [] r = r"
| "perform_all e (a # as) r = perform_all e as (perform e a r)"

section \<open>Notions used to state the properties\<close>

text \<open>
  Both sets uninitialized, or both initialized and without a common identity.
\<close>

definition disjoint_sets :: "registry \<Rightarrow> bool" where
  "disjoint_sets r =
     (case function_ids (allowed_function_ids r) of
        None \<Rightarrow> function_ids (disallowed_function_ids r) = None
      | Some a \<Rightarrow>
          (case function_ids (disallowed_function_ids r) of
             None \<Rightarrow> False
           | Some d \<Rightarrow> a \<inter> d = {}))"

text \<open>
  The dictionary \<open>_allowed_function_ids\<close> returns when \<open>_disallowed_function_ids()\<close> gives
  \<open>dis\<close>.
\<close>

definition torch_object_ids :: "env \<Rightarrow> oid set \<Rightarrow> names" where
  "torch_object_ids e dis =
     ((tensor_methods e (tensor_dir e)
         (find_torch_objects e (math e) (find_torch_objects e (torch e) Map.empty))) |` (- dis))
       (is_fx_tracing e \<mapsto>
          dotted (obj_module (obj_of e (is_fx_tracing e))) (obj_name (obj_of e (is_fx_tracing e))),
        is_compiling e \<mapsto>
          dotted (obj_module (obj_of e (is_compiling e))) (obj_name (obj_of e (is_compiling e))))"


text \<open>
  Every object in the argument of an entry point is callable; every one is callable and
  takes the attribute \<open>_dynamo_forbidden\<close>.
\<close>

fun all_callable :: "env \<Rightarrow> pyval \<Rightarrow> bool" where
  "all_callable e (Ref fn) = callable (obj_of e fn)"
| "all_callable e (PyList fns) = list_all (all_callable e) fns"
| "all_callable e (PyTuple fns) = list_all (all_callable e) fns"

fun all_forbiddable :: "env \<Rightarrow> pyval \<Rightarrow> bool" where
  "all_forbiddable e (Ref fn) =
     (callable (obj_of e fn) \<and> setattr_error (obj_of e fn) = None)"
| "all_forbiddable e (PyList fns) = list_all (all_forbiddable e) fns"
| "all_forbiddable e (PyTuple fns) = list_all (all_forbiddable e) fns"

text \<open>The argument of an entry point with every tuple turned into a list.\<close>

fun as_list :: "pyval \<Rightarrow> pyval" where
  "as_list (Ref fn) = Ref fn"
| "as_list (PyList fns) = PyList (map as_list fns)"
| "as_list (PyTuple fns) = PyList (map as_list fns)"

text \<open>
  The name \<open>n\<close> is one the walk can write for the identity \<open>i\<close>: the \<open>__name__\<close> of a
  namespace \<open>m = i\<close> that no ignore-list prefix matches, or \<open>parent.child\<close> for a binding
  \<open>child\<close> of \<open>i\<close> in such a namespace.
\<close>

definition named_from :: "env \<Rightarrow> oid \<Rightarrow> string \<Rightarrow> bool" where
  "named_from e i n =
     (\<exists>m. \<not> list_ex (startswith (obj_name (obj_of e m))) (ignorelist e) \<and>
          ((i = m \<and> n = obj_name (obj_of e m)) \<or>
           (\<exists>child. (child, i) \<in> set (dict_items (obj_of e m)) \<and>
                    n = dotted (obj_name (obj_of e m)) child)))"

section \<open>A small namespace graph with cycles\<close>

text \<open>
  \<open>torch\<close> binds \<open>torch.nn\<close>, which binds \<open>torch\<close> again (\<open>root\<close>) and \<open>torch.nn.sub\<close>, which
  binds \<open>torch.nn\<close> again (\<open>up\<close>). The function \<open>add\<close> is bound twice, as \<open>torch.nn.plus\<close> and
  as \<open>torch.add\<close>; \<open>my_fn\<close> is a user function no namespace binds; object 12 is an
  operator overload packet, object 14 a builtin function, object 16 a builtin class.
\<close>

definition py_module :: "string \<Rightarrow> (string \<times> oid) list \<Rightarrow> pyobject" where
  "py_module name items =
     \<lparr>obj_name = name, obj_module = [], module_dict = Some items, getmodule = None,
      callable = False, safe_constant = False, is_dtype = False, is_storage_class = False,
      is_method_descriptor = False, is_op_dispatch = False, setattr_error = None\<rparr>"

definition py_function :: "string \<Rightarrow> string \<Rightarrow> pyobject" where
  "py_function name modname =
     \<lparr>obj_name = name, obj_module = modname, module_dict = None, getmodule = Some modname,
      callable = True, safe_constant = False, is_dtype = False, is_storage_class = False,
      is_method_descriptor = False, is_op_dispatch = False, setattr_error = None\<rparr>"

definition demo_heap :: "(oid \<times> pyobject) list" where
  "demo_heap =
     [(0, py_module ''torch'' [(''nn'', 1), (''add'', 3), (''float32'', 6), (''math'', 8)]),
      (1, py_module ''torch.nn'' [(''sub'', 2), (''f'', 4), (''root'', 0), (''plus'', 3)]),
      (2, py_module ''torch.nn.sub'' [(''g'', 5), (''up'', 1)]),
      (3, py_function ''add'' ''torch''),
      (4, py_function ''f'' ''torch.nn''),
      (5, py_function ''g'' ''torch.nn.sub''),
      (6, (py_function ''float32'' ''torch'')
            \<lparr>getmodule := None, callable := False, is_dtype := True,
             setattr_error := Some AttributeError\<rparr>),
      (7, py_function ''my_fn'' ''__main__''),
      (8, py_module ''math'' [(''sqrt'', 9)]),
      (9, py_function ''sqrt'' ''math''),
      (10, py_function ''is_fx_tracing'' ''torch.fx._symbolic_trace''),
      (11, py_function ''is_compiling'' ''torch._dynamo.external_utils''),
      (12, (py_function ''aten.add'' ''torch._ops'') \<lparr>is_op_dispatch := True\<rparr>),
      (13, (py_function ''add'' ''torch'')
            \<lparr>getmodule := None, is_method_descriptor := True,
             setattr_error := Some AttributeError\<rparr>),
      (14, (py_function ''len'' ''builtins'') \<lparr>setattr_error := Some AttributeError\<rparr>),
      (15, unknown_object),
      (16, (py_function ''OrderedDict'' ''collections'') \<lparr>setattr_error := Some TypeError\<rparr>)]"

text \<open>
  Two configurations of the ignore list over the same heap: the prefix \<open>torch.nn.sub\<close>, and
  the prefix \<open>torch.nn.sub.\<close> with a final dot.
\<close>

definition demo_env :: env where
  "demo_env =
     \<lparr>heap = demo_heap, torch = 0, math = 8, tensor_dir = [(''add'', 13)],
      is_fx_tracing = 10, is_compiling = 11, ignorelist = [''torch.nn.sub''],
      remove_listed = [15]\<rparr>"

definition demo_env_dot :: env where
  "demo_env_dot = demo_env\<lparr>ignorelist := [''torch.nn.sub.'']\<rparr>"



text \<open>A run of overrides on the example, and the registry it reaches.\<close>

definition demo_actions :: "action list" where
  "demo_actions =
     [Discover, Disallow (Ref 3), Allow (Ref 7), Forbid (Ref 7), Query 4,
      Allow (PyTuple [Ref 3, Ref 6]), DisallowNonStrict (Ref 9)]"

definition demo_reached :: registry where
  "demo_reached = perform_all demo_env demo_actions initial_registry"

definition demo_after_allow :: registry where
  "demo_after_allow = perform_all demo_env [Allow (Ref 7)] initial_registry"

section \<open>Lemmas\<close>

lemma disallowed_call_eq:
  "disallowed_call e r =
     (case function_ids (disallowed_function_ids r) of
        Some x \<Rightarrow> (x, r)
      | None \<Rightarrow> (disallowed_init e,
           r\<lparr>disallowed_function_ids :=
               (disallowed_function_ids r)\<lparr>function_ids := Some (disallowed_init e)\<rparr>\<rparr>))"
  by (simp add: disallowed_call_def store_value_def split: option.splits)

lemma allowed_init_dom:
  assumes "allowed_init e r = (DictValue d, r1)"
  shows "r1 = snd (disallowed_call e r)"
    and "\<exists>X. dom d = (X - fst (disallowed_call e r)) \<union> {is_fx_tracing e, is_compiling e}"
proof -
  define ids3 where "ids3 = tensor_methods e (tensor_dir e)
      (find_torch_objects e (math e) (find_torch_objects e (torch e) Map.empty))"
  define n1 where "n1 = dotted (obj_module (obj_of e (is_fx_tracing e))) (obj_name (obj_of e (is_fx_tracing e)))"
  define n2 where "n2 = dotted (obj_module (obj_of e (is_compiling e))) (obj_name (obj_of e (is_compiling e)))"
  have d: "d = (ids3 |` (- fst (disallowed_call e r)))(is_fx_tracing e \<mapsto> n1, is_compiling e \<mapsto> n2)"
    using assms by (simp add: allowed_init_def Let_def split_beta ids3_def n1_def n2_def)
  show "r1 = snd (disallowed_call e r)"
    using assms by (simp add: allowed_init_def Let_def split_beta)
  have "dom d = (dom ids3 - fst (disallowed_call e r)) \<union> {is_fx_tracing e, is_compiling e}"
    unfolding d by auto
  then show "\<exists>X. dom d = (X - fst (disallowed_call e r)) \<union> {is_fx_tracing e, is_compiling e}" ..
qed

lemma allowed_init_dict: "\<exists>d. allowed_init e r = (DictValue d, snd (disallowed_call e r))"
  by (simp add: allowed_init_def Let_def split_beta)

lemma allowed_call_Some:
  "function_ids (allowed_function_ids r) = Some x \<Longrightarrow> allowed_call e r = (x, r)"
  by (simp add: allowed_call_def)

lemma disallowed_call_Some:
  "function_ids (disallowed_function_ids r) = Some x \<Longrightarrow> disallowed_call e r = (x, r)"
  by (simp add: disallowed_call_def)

lemma allowed_call_materialized:
  "function_ids (allowed_function_ids (snd (allowed_call e r))) = Some (fst (allowed_call e r))"
  by (auto simp: allowed_call_def store_value_def Let_def split_beta
      split: option.splits lazy_value.splits)

lemma disallowed_call_materialized:
  "function_ids (disallowed_function_ids (snd (disallowed_call e r))) = Some (fst (disallowed_call e r))"
  by (auto simp: disallowed_call_eq split: option.splits)

lemma allowed_call_idem: "allowed_call e (snd (allowed_call e r)) = allowed_call e r"
  by (simp add: allowed_call_Some [OF allowed_call_materialized])

lemma disallowed_call_idem: "disallowed_call e (snd (disallowed_call e r)) = disallowed_call e r"
  by (simp add: disallowed_call_Some [OF disallowed_call_materialized])

lemma disallowed_call_allowed_frame [simp]:
  "allowed_function_ids (snd (disallowed_call e r)) = allowed_function_ids r"
  by (simp add: disallowed_call_eq split: option.splits)

lemma disallowed_call_forbidden_frame [simp]:
  "dynamo_forbidden (snd (disallowed_call e r)) = dynamo_forbidden r"
  by (simp add: disallowed_call_eq split: option.splits)

lemma allowed_call_None:
  assumes "function_ids (allowed_function_ids r) = None"
  shows "\<exists>d. allowed_init e r = (DictValue d, snd (disallowed_call e r)) \<and>
             allowed_call e r =
               (dom d, (snd (disallowed_call e r))\<lparr>allowed_function_ids :=
                  (allowed_function_ids r)\<lparr>function_ids := Some (dom d), function_names := Some d\<rparr>\<rparr>)"
proof -
  obtain d where d: "allowed_init e r = (DictValue d, snd (disallowed_call e r))"
    using allowed_init_dict by blast
  then show ?thesis using assms by (simp add: allowed_call_def store_value_def)
qed

lemma disallowed_call_put_allowed:
  "disallowed_call e (r\<lparr>allowed_function_ids := s\<rparr>) =
     (fst (disallowed_call e r), (snd (disallowed_call e r))\<lparr>allowed_function_ids := s\<rparr>)"
  by (simp add: disallowed_call_eq split: option.splits)

lemma allowed_call_disallowed_view:
  "fst (disallowed_call e (snd (allowed_call e r))) = fst (disallowed_call e r)"
proof (cases "function_ids (allowed_function_ids r)")
  case None
  from allowed_call_None [OF None, of e] obtain d where
    "allowed_call e r =
       (dom d, (snd (disallowed_call e r))\<lparr>allowed_function_ids :=
          (allowed_function_ids r)\<lparr>function_ids := Some (dom d), function_names := Some d\<rparr>\<rparr>)"
    by blast
  then show ?thesis by (simp add: disallowed_call_put_allowed disallowed_call_idem)
next
  case (Some x)
  then show ?thesis by (simp add: allowed_call_Some)
qed

lemma allowed_call_forbidden_frame [simp]:
  "dynamo_forbidden (snd (allowed_call e r)) = dynamo_forbidden r"
proof (cases "function_ids (allowed_function_ids r)")
  case None
  from allowed_call_None [OF None, of e] show ?thesis by auto
next
  case (Some x)
  then show ?thesis by (simp add: allowed_call_Some)
qed

lemma fis_call_Some:
  "function_ids (the_set w r) = Some x \<Longrightarrow> fis_call e w r = (x, r)"
  by (cases w) (simp_all add: allowed_call_Some disallowed_call_Some)

lemma fis_call_materialized:
  "function_ids (the_set w (snd (fis_call e w r))) = Some (fst (fis_call e w r))"
  by (cases w) (simp_all add: allowed_call_materialized disallowed_call_materialized)

lemma the_set_put_set [simp]: "the_set w (put_set w s r) = s"
  by (cases w) simp_all

lemma fis_add_ids:
  "function_ids (the_set w (fis_add e w i r)) = Some (insert i (fst (fis_call e w r)))"
  by (simp add: fis_add_def split_beta)

lemma fis_remove_ids:
  "function_ids (the_set w (fis_remove e w i r)) = Some (fst (fis_call e w r) - {i})"
  by (simp add: fis_remove_def split_beta fis_call_materialized)

lemma fis_add_absorb:
  "function_ids (the_set w r) = Some x \<Longrightarrow> i \<in> x \<Longrightarrow> fis_add e w i r = r"
  by (cases w) (simp_all add: fis_add_def allowed_call_Some disallowed_call_Some insert_absorb)

lemma fis_remove_absent:
  "function_ids (the_set w r) = Some x \<Longrightarrow> i \<notin> x \<Longrightarrow> fis_remove e w i r = r"
  by (cases w) (simp_all add: fis_remove_def allowed_call_Some disallowed_call_Some)

lemma fis_disallowed_allowed_frame [simp]:
  "allowed_function_ids (fis_add e Disallowed i r) = allowed_function_ids r"
  "allowed_function_ids (fis_remove e Disallowed i r) = allowed_function_ids r"
  by (simp_all add: fis_add_def fis_remove_def split_beta)

lemma allow_ref_sets:
  fixes r :: registry
  assumes "callable (obj_of e f)"
  defines "r2 \<equiv> snd (allow_in_graph e (Ref f) r)"
  shows "function_ids (allowed_function_ids r2) = Some (insert f (fst (allowed_call e r)))"
    and "function_ids (disallowed_function_ids r2) =
           Some (fst (disallowed_call e (fis_add e Allowed f r)) - {f})"
proof -
  have r2: "r2 = fis_remove e Disallowed f (fis_add e Allowed f r)"
    using assms by simp
  show "function_ids (allowed_function_ids r2) = Some (insert f (fst (allowed_call e r)))"
    using fis_add_ids [of Allowed e f r] by (simp add: r2)
  show "function_ids (disallowed_function_ids r2) =
           Some (fst (disallowed_call e (fis_add e Allowed f r)) - {f})"
    using fis_remove_ids [of Disallowed e f "fis_add e Allowed f r"] by (simp add: r2)
qed

lemma disallow_nonstrict_allowed_ids:
  "function_ids (allowed_function_ids (fis_add e Disallowed f (fis_remove e Allowed f r))) =
     Some (fst (allowed_call e r) - {f})"
  using fis_remove_ids [of Allowed e f r] by simp

lemma is_allowed_Some:
  "function_ids (allowed_function_ids r) = Some x \<Longrightarrow>
     is_allowed e f r = (f \<in> x \<or> is_op_dispatch (obj_of e f), r)"
  by (simp add: is_allowed_def fis_contains_def allowed_call_Some)

lemma is_allowed_eq:
  "is_allowed e f r = (f \<in> fst (allowed_call e r) \<or> is_op_dispatch (obj_of e f), snd (allowed_call e r))"
  by (simp add: is_allowed_def fis_contains_def split_beta)

lemma forbid_frame:
  "allowed_function_ids (snd (forbid_in_graph e fn r)) = allowed_function_ids r \<and>
   disallowed_function_ids (snd (forbid_in_graph e fn r)) = disallowed_function_ids r"
  "allowed_function_ids (snd (forbid_each e fns r)) = allowed_function_ids r \<and>
   disallowed_function_ids (snd (forbid_each e fns r)) = disallowed_function_ids r"
  by (induct e fn r and e fns r rule: forbid_in_graph_forbid_each.induct)
     (auto split: prod.splits sum.splits option.splits)

lemma disallowed_view_cong:
  "disallowed_function_ids r = disallowed_function_ids r' \<Longrightarrow>
     fst (disallowed_call e r) = fst (disallowed_call e r')"
  by (simp add: disallowed_call_eq split: option.splits)

lemma allowed_view_cong:
  assumes "allowed_function_ids r = allowed_function_ids r'"
    and "disallowed_function_ids r = disallowed_function_ids r'"
  shows "fst (allowed_call e r) = fst (allowed_call e r')"
proof -
  have "fst (allowed_init e r) = fst (allowed_init e r')"
    using disallowed_view_cong [OF assms(2), of e]
    by (simp add: allowed_init_def Let_def split_beta)
  then show ?thesis
    using assms(1)
    by (simp add: allowed_call_def store_value_def Let_def split_beta
        split: option.splits lazy_value.splits)
qed

lemma disjoint_sets_iff:
  "function_ids (allowed_function_ids r) = Some a \<Longrightarrow>
   function_ids (disallowed_function_ids r) = Some d \<Longrightarrow> disjoint_sets r = (a \<inter> d = {})"
  by (simp add: disjoint_sets_def)

lemma disjoint_sets_materialize:
  assumes fx: "is_fx_tracing e \<notin> disallowed_init e"
    and cmp: "is_compiling e \<notin> disallowed_init e"
    and inv: "disjoint_sets r"
  shows "\<exists>a d. function_ids (allowed_function_ids (snd (allowed_call e r))) = Some a \<and>
               function_ids (disallowed_function_ids (snd (allowed_call e r))) = Some d \<and>
               fst (allowed_call e r) = a \<and> a \<inter> d = {}"
proof (cases "function_ids (allowed_function_ids r)")
  case None
  with inv have dn: "function_ids (disallowed_function_ids r) = None"
    by (simp add: disjoint_sets_def)
  then have dc: "fst (disallowed_call e r) = disallowed_init e"
    "function_ids (disallowed_function_ids (snd (disallowed_call e r))) = Some (disallowed_init e)"
    by (simp_all add: disallowed_call_eq)
  from allowed_call_None [OF None, of e] obtain dict where
    ini: "allowed_init e r = (DictValue dict, snd (disallowed_call e r))" and
    ac: "allowed_call e r =
       (dom dict, (snd (disallowed_call e r))\<lparr>allowed_function_ids :=
          (allowed_function_ids r)\<lparr>function_ids := Some (dom dict), function_names := Some dict\<rparr>\<rparr>)"
    by blast
  from allowed_init_dom(2) [OF ini] obtain X where
    "dom dict = (X - fst (disallowed_call e r)) \<union> {is_fx_tracing e, is_compiling e}" by blast
  with dc fx cmp have "dom dict \<inter> disallowed_init e = {}" by auto
  with ac dc show ?thesis by simp
next
  case (Some a)
  with inv obtain d where "function_ids (disallowed_function_ids r) = Some d" "a \<inter> d = {}"
    by (auto simp: disjoint_sets_def split: option.splits)
  with Some show ?thesis by (simp add: allowed_call_Some)
qed

lemma fis_allowed_disallowed_frame:
  "disallowed_function_ids (fis_add e Allowed i r) = disallowed_function_ids (snd (allowed_call e r))"
  "disallowed_function_ids (fis_remove e Allowed i r) = disallowed_function_ids (snd (allowed_call e r))"
  by (simp_all add: fis_add_def fis_remove_def split_beta)

lemma disjoint_sets_allowed_call:
  assumes "is_fx_tracing e \<notin> disallowed_init e" and "is_compiling e \<notin> disallowed_init e"
    and "disjoint_sets r"
  shows "disjoint_sets (snd (allowed_call e r))"
  using disjoint_sets_materialize [OF assms] by (auto simp: disjoint_sets_def)

lemma disjoint_sets_allow:
  assumes "is_fx_tracing e \<notin> disallowed_init e" and "is_compiling e \<notin> disallowed_init e"
    and "disjoint_sets r"
  shows "disjoint_sets (fis_remove e Disallowed f (fis_add e Allowed f r))"
proof -
  from disjoint_sets_materialize [OF assms] obtain a d where
    a: "fst (allowed_call e r) = a" and
    d: "function_ids (disallowed_function_ids (snd (allowed_call e r))) = Some d" and
    ad: "a \<inter> d = {}" by blast
  let ?r1 = "fis_add e Allowed f r"
  have d1: "function_ids (the_set Disallowed ?r1) = Some d"
    by (simp add: fis_allowed_disallowed_frame d)
  have "function_ids (allowed_function_ids (fis_remove e Disallowed f ?r1)) = Some (insert f a)"
    using fis_add_ids [of Allowed e f r] by (simp add: a)
  moreover have "function_ids (disallowed_function_ids (fis_remove e Disallowed f ?r1)) = Some (d - {f})"
    using fis_remove_ids [of Disallowed e f ?r1] fis_call_Some [OF d1, of e] by simp
  moreover have "insert f a \<inter> (d - {f}) = {}" using ad by auto
  ultimately show ?thesis by (simp add: disjoint_sets_iff)
qed

lemma disjoint_sets_disallow:
  assumes "is_fx_tracing e \<notin> disallowed_init e" and "is_compiling e \<notin> disallowed_init e"
    and "disjoint_sets r"
  shows "disjoint_sets (fis_add e Disallowed f (fis_remove e Allowed f r))"
proof -
  from disjoint_sets_materialize [OF assms] obtain a d where
    a: "fst (allowed_call e r) = a" and
    d: "function_ids (disallowed_function_ids (snd (allowed_call e r))) = Some d" and
    ad: "a \<inter> d = {}" by blast
  let ?r1 = "fis_remove e Allowed f r"
  have d1: "function_ids (the_set Disallowed ?r1) = Some d"
    by (simp add: fis_allowed_disallowed_frame d)
  have "function_ids (allowed_function_ids (fis_add e Disallowed f ?r1)) = Some (a - {f})"
    using fis_remove_ids [of Allowed e f r] by (simp add: a)
  moreover have "function_ids (disallowed_function_ids (fis_add e Disallowed f ?r1)) = Some (insert f d)"
    using fis_add_ids [of Disallowed e f ?r1] fis_call_Some [OF d1, of e] by simp
  moreover have "(a - {f}) \<inter> insert f d = {}" using ad by auto
  ultimately show ?thesis by (simp add: disjoint_sets_iff)
qed

lemma disjoint_sets_allow_in_graph:
  assumes fx: "is_fx_tracing e \<notin> disallowed_init e" and cmp: "is_compiling e \<notin> disallowed_init e"
  shows "disjoint_sets r \<Longrightarrow> disjoint_sets (snd (allow_in_graph e fn r))"
    and "disjoint_sets r \<Longrightarrow> disjoint_sets (snd (allow_each e fns r))"
  using assms
proof (induct e fn r and e fns r rule: allow_in_graph_allow_each.induct)
  case (3 e fn r)
  then show ?case by (simp add: disjoint_sets_allow)
qed (auto split: prod.splits sum.splits)

lemma disjoint_sets_is_allowed:
  assumes "is_fx_tracing e \<notin> disallowed_init e" and "is_compiling e \<notin> disallowed_init e"
    and "disjoint_sets r"
  shows "disjoint_sets (snd (is_allowed e f r))"
  using disjoint_sets_allowed_call [OF assms] by (simp add: is_allowed_eq)

lemma disjoint_sets_disallow_in_graph:
  assumes fx: "is_fx_tracing e \<notin> disallowed_init e" and cmp: "is_compiling e \<notin> disallowed_init e"
  shows "disjoint_sets r \<Longrightarrow> disjoint_sets (snd (disallow_in_graph_helper e t fn r))"
    and "disjoint_sets r \<Longrightarrow> disjoint_sets (snd (disallow_each e fns r))"
  using assms
proof (induct e t fn r and e fns r rule: disallow_in_graph_helper_disallow_each.induct)
  case (3 e t fn r)
  have "disjoint_sets (snd (is_allowed e fn r))"
    using 3 by (intro disjoint_sets_is_allowed)
  then have "disjoint_sets (fis_add e Disallowed fn (fis_remove e Allowed fn (snd (is_allowed e fn r))))"
    using 3 by (intro disjoint_sets_disallow)
  moreover have "disjoint_sets (fis_add e Disallowed fn (fis_remove e Allowed fn r))"
    using 3 by (intro disjoint_sets_disallow)
  ultimately show ?case
    using \<open>disjoint_sets (snd (is_allowed e fn r))\<close> 3
    by (auto split: prod.splits bool.splits)
qed (auto split: prod.splits sum.splits)

lemma disjoint_sets_forbid:
  "disjoint_sets r \<Longrightarrow> disjoint_sets (snd (forbid_in_graph e fn r))"
  by (simp add: disjoint_sets_def forbid_frame cong: option.case_cong)

lemma disjoint_sets_perform:
  assumes "is_fx_tracing e \<notin> disallowed_init e" and "is_compiling e \<notin> disallowed_init e"
    and "disjoint_sets r"
  shows "disjoint_sets (perform e a r)"
proof (cases a)
  case Discover
  then show ?thesis using assms by (simp add: disjoint_sets_allowed_call)
next
  case (Query x)
  then show ?thesis using assms by (simp add: disjoint_sets_is_allowed)
next
  case (Allow x)
  then show ?thesis using assms by (simp add: disjoint_sets_allow_in_graph)
next
  case (Disallow x)
  then show ?thesis using assms by (simp add: disallow_in_graph_def disjoint_sets_disallow_in_graph)
next
  case (DisallowNonStrict x)
  then show ?thesis using assms by (simp add: disjoint_sets_disallow_in_graph)
next
  case (Forbid x)
  then show ?thesis using assms by (simp add: disjoint_sets_forbid)
qed

lemma disjoint_sets_perform_all:
  assumes "is_fx_tracing e \<notin> disallowed_init e" and "is_compiling e \<notin> disallowed_init e"
  shows "disjoint_sets r \<Longrightarrow> disjoint_sets (perform_all e acts r)"
proof (induction acts arbitrary: r)
  case Nil
  then show ?case by simp
next
  case (Cons a acts)
  then show ?case using assms by (simp add: disjoint_sets_perform)
qed

lemma disjoint_views:
  assumes "is_fx_tracing e \<notin> disallowed_init e" and "is_compiling e \<notin> disallowed_init e"
    and "disjoint_sets r"
  shows "fst (allowed_call e r) \<inter> fst (disallowed_call e r) = {}"
proof -
  from disjoint_sets_materialize [OF assms] obtain a d where
    a: "fst (allowed_call e r) = a" and
    d: "function_ids (disallowed_function_ids (snd (allowed_call e r))) = Some d" and
    ad: "a \<inter> d = {}" by blast
  have "fst (disallowed_call e (snd (allowed_call e r))) = d"
    by (simp add: disallowed_call_Some [OF d])
  then have "fst (disallowed_call e r) = d" by (simp add: allowed_call_disallowed_view)
  with a ad show ?thesis by simp
qed

lemma allow_result_shape:
  "fst (allow_in_graph e fn r) = Inr y \<Longrightarrow> y = as_list fn"
  "fst (allow_each e fns r) = Inr ys \<Longrightarrow> ys = map as_list fns"
  by (induct e fn r and e fns r arbitrary: y and ys rule: allow_in_graph_allow_each.induct)
     (auto split: prod.splits sum.splits if_splits)

lemma disallow_result_shape:
  "fst (disallow_in_graph_helper e t fn r) = Inr y \<Longrightarrow> y = as_list fn"
  "fst (disallow_each e fns r) = Inr ys \<Longrightarrow> ys = map as_list fns"
  by (induct e t fn r and e fns r arbitrary: y and ys rule: disallow_in_graph_helper_disallow_each.induct)
     (auto split: prod.splits sum.splits if_splits bool.splits)

lemma forbid_result_shape:
  "fst (forbid_in_graph e fn r) = Inr y \<Longrightarrow> y = as_list fn"
  "fst (forbid_each e fns r) = Inr ys \<Longrightarrow> ys = map as_list fns"
  by (induct e fn r and e fns r arbitrary: y and ys rule: forbid_in_graph_forbid_each.induct)
     (auto split: prod.splits sum.splits if_splits option.splits)

lemma scan_items_Cons:
  "scan_items e mname ((name, c) # rest) ids =
     scan_items e mname rest
       (if ids c = None then
          (if module_dict (obj_of e c) \<noteq> None then
             (if startswith (obj_name (obj_of e c)) ''torch.'' \<and> is_allowed_module_prefix (obj_of e c)
              then find_torch_objects e c (ids(c \<mapsto> dotted mname name))
              else ids)
           else if is_allowed_module_prefix (obj_of e c) then ids(c \<mapsto> dotted mname name)
           else if inspect_getmodule (obj_of e c) = None \<and> \<not> safe_constant (obj_of e c)
                then ids(c \<mapsto> dotted mname name)
           else ids)
        else ids)"
  by simp

lemma find_torch_objects_skip:
  "\<not> list_ex (startswith (obj_name (obj_of e module))) (ignorelist e) \<Longrightarrow>
     find_torch_objects e module ids =
       scan_items e (obj_name (obj_of e module)) (dict_items (obj_of e module))
         (ids(module \<mapsto> obj_name (obj_of e module)))"
  by (simp add: find_torch_objects.simps)

lemma finite_dom_traversal:
  "finite (dom ids) \<Longrightarrow> finite (dom (find_torch_objects e module ids))"
  "finite (dom ids) \<Longrightarrow> finite (dom (scan_items e mname items ids))"
proof (induct e module ids and e mname items ids rule: find_torch_objects_scan_items.induct)
  case (1 e module ids)
  show ?case
  proof (cases "list_ex (startswith (obj_name (obj_of e module))) (ignorelist e)")
    case True
    with 1(2) show ?thesis by (simp add: find_torch_objects.simps)
  next
    case False
    have "finite (dom (ids(module \<mapsto> obj_name (obj_of e module))))"
      using 1(2) by simp
    from 1(1) [OF False this] show ?thesis
      unfolding find_torch_objects_skip [OF False] .
  qed
next
  case (2 e mname ids)
  then show ?case by simp
next
  case (3 e mname name c rest ids)
  let ?new = "ids(c \<mapsto> dotted mname name)"
  have new: "finite (dom ?new)" using 3(3) by simp
  show ?case
    unfolding scan_items_Cons
  proof (rule 3(2))
    show "finite (dom (if ids c = None then
          (if module_dict (obj_of e c) \<noteq> None then
             (if startswith (obj_name (obj_of e c)) ''torch.'' \<and> is_allowed_module_prefix (obj_of e c)
              then find_torch_objects e c ?new
              else ids)
           else if is_allowed_module_prefix (obj_of e c) then ?new
           else if inspect_getmodule (obj_of e c) = None \<and> \<not> safe_constant (obj_of e c)
                then ?new
           else ids)
        else ids))"
    proof (cases "ids c = None \<and> module_dict (obj_of e c) \<noteq> None \<and>
        startswith (obj_name (obj_of e c)) ''torch.'' \<and> is_allowed_module_prefix (obj_of e c)")
      case True
      then have c: "ids c = None" "module_dict (obj_of e c) \<noteq> None"
        "startswith (obj_name (obj_of e c)) ''torch.'' \<and> is_allowed_module_prefix (obj_of e c)"
        by simp_all
      have "finite (dom (find_torch_objects e c ?new))"
        by (rule 3(1) [OF c new])
      with True show ?thesis by simp
    next
      case False
      with new 3(3) show ?thesis by auto
    qed
  qed
qed


lemma named_from_module:
  "\<not> list_ex (startswith (obj_name (obj_of e m))) (ignorelist e) \<Longrightarrow>
     named_from e m (obj_name (obj_of e m))"
  by (auto simp: named_from_def)

lemma named_from_child:
  "\<not> list_ex (startswith (obj_name (obj_of e m))) (ignorelist e) \<Longrightarrow>
   (child, i) \<in> set (dict_items (obj_of e m)) \<Longrightarrow>
     named_from e i (dotted (obj_name (obj_of e m)) child)"
  by (auto simp: named_from_def)

lemma recorded_names:
  "find_torch_objects e module ids i = Some n \<Longrightarrow> ids i = Some n \<or> named_from e i n"
  "\<forall>m. mname = obj_name (obj_of e m) \<longrightarrow>
       \<not> list_ex (startswith (obj_name (obj_of e m))) (ignorelist e) \<longrightarrow>
       set items \<subseteq> set (dict_items (obj_of e m)) \<longrightarrow>
       scan_items e mname items ids i = Some n \<longrightarrow> ids i = Some n \<or> named_from e i n"
proof (induct e module ids and e mname items ids rule: find_torch_objects_scan_items.induct)
  case (1 e module ids)
  show ?case
  proof (cases "list_ex (startswith (obj_name (obj_of e module))) (ignorelist e)")
    case True
    with 1(2) show ?thesis by (simp add: find_torch_objects.simps)
  next
    case False
    let ?ids' = "ids(module \<mapsto> obj_name (obj_of e module))"
    have "scan_items e (obj_name (obj_of e module)) (dict_items (obj_of e module)) ?ids' i = Some n"
      using 1(2) unfolding find_torch_objects_skip [OF False] .
    with 1(1) [OF False] False have "?ids' i = Some n \<or> named_from e i n"
      by blast
    then show ?thesis
    proof
      assume a: "?ids' i = Some n"
      show ?thesis
      proof (cases "i = module")
        case True
        with a have "n = obj_name (obj_of e module)" by simp
        with True named_from_module [OF False] show ?thesis by simp
      next
        case False
        with a show ?thesis by simp
      qed
    qed simp
  qed
next
  case (2 e mname ids)
  then show ?case by simp
next
  case (3 e mname name c rest ids)
  let ?new = "ids(c \<mapsto> dotted mname name)"
  let ?mid = "(if ids c = None then
          (if module_dict (obj_of e c) \<noteq> None then
             (if startswith (obj_name (obj_of e c)) ''torch.'' \<and> is_allowed_module_prefix (obj_of e c)
              then find_torch_objects e c ?new
              else ids)
           else if is_allowed_module_prefix (obj_of e c) then ?new
           else if inspect_getmodule (obj_of e c) = None \<and> \<not> safe_constant (obj_of e c)
                then ?new
           else ids)
        else ids)"
  show ?case
  proof (intro allI impI)
    fix m
    assume mn: "mname = obj_name (obj_of e m)"
      and ok: "\<not> list_ex (startswith (obj_name (obj_of e m))) (ignorelist e)"
      and sub: "set ((name, c) # rest) \<subseteq> set (dict_items (obj_of e m))"
      and res: "scan_items e mname ((name, c) # rest) ids i = Some n"
    have new: "ids i = Some n \<or> named_from e i n" if "?new i = Some n"
    proof (cases "i = c")
      case True
      with that have "n = dotted (obj_name (obj_of e m)) name" by (simp add: mn)
      moreover have "(name, i) \<in> set (dict_items (obj_of e m))" using sub True by simp
      ultimately show ?thesis using named_from_child [OF ok] by blast
    next
      case False
      with that show ?thesis by simp
    qed
    from res have "scan_items e mname rest ?mid i = Some n"
      unfolding scan_items_Cons .
    moreover have "set rest \<subseteq> set (dict_items (obj_of e m))" using sub by simp
    ultimately have mid: "?mid i = Some n \<or> named_from e i n"
      using 3(2) mn ok by blast
    show "ids i = Some n \<or> named_from e i n"
    proof (cases "ids c = None \<and> module_dict (obj_of e c) \<noteq> None \<and>
        startswith (obj_name (obj_of e c)) ''torch.'' \<and> is_allowed_module_prefix (obj_of e c)")
      case True
      then have c: "ids c = None" "module_dict (obj_of e c) \<noteq> None"
        "startswith (obj_name (obj_of e c)) ''torch.'' \<and> is_allowed_module_prefix (obj_of e c)"
        by simp_all
      from True mid have "find_torch_objects e c ?new i = Some n \<or> named_from e i n" by simp
      then show ?thesis
      proof
        assume "find_torch_objects e c ?new i = Some n"
        from 3(1) [OF c this] new show ?thesis by blast
      qed simp
    next
      case False
      with mid have "ids i = Some n \<or> ?new i = Some n \<or> named_from e i n"
        by (auto split: if_splits)
      with new show ?thesis by blast
    qed
  qed
qed

lemma allowed_init_eq:
  "allowed_init e r =
     (DictValue (torch_object_ids e (fst (disallowed_call e r))), snd (disallowed_call e r))"
  by (simp add: allowed_init_def torch_object_ids_def Let_def split_beta)

lemma allowed_call_initial:
  "allowed_call e initial_registry =
     (dom (torch_object_ids e (disallowed_init e)),
      \<lparr>allowed_function_ids =
         \<lparr>function_ids = Some (dom (torch_object_ids e (disallowed_init e))),
          function_names = Some (torch_object_ids e (disallowed_init e))\<rparr>,
       disallowed_function_ids = \<lparr>function_ids = Some (disallowed_init e), function_names = None\<rparr>,
       dynamo_forbidden = {}\<rparr>)"
  by (simp add: allowed_call_def allowed_init_eq disallowed_call_eq store_value_def
      initial_registry_def)

lemma torch_get_name_discovered:
  "fst (torch_get_name e obj dflt (snd (allowed_call e initial_registry))) =
     Inr (case torch_object_ids e (disallowed_init e) obj of Some n \<Rightarrow> n | None \<Rightarrow> dflt)"
  by (simp add: torch_get_name_def fis_get_name_def allowed_call_initial allowed_call_Some)

lemma allowed_ids_discovered:
  "fst (allowed_call e (snd (allowed_call e initial_registry))) =
     dom (torch_object_ids e (disallowed_init e))"
  by (simp add: allowed_call_idem) (simp add: allowed_call_initial)


lemma finite_dom_tensor_methods:
  "finite (dom ids) \<Longrightarrow> finite (dom (tensor_methods e items ids))"
  by (induction e items ids rule: tensor_methods.induct) simp_all

lemma finite_dom_torch_object_ids: "finite (dom (torch_object_ids e dis))"
proof -
  have "finite (dom (tensor_methods e (tensor_dir e)
      (find_torch_objects e (math e) (find_torch_objects e (torch e) Map.empty))))"
    by (intro finite_dom_tensor_methods finite_dom_traversal(1)) simp
  then show ?thesis by (simp add: torch_object_ids_def)
qed

lemma disallow_strict_ref:
  assumes "callable (obj_of e f)" and "fst (is_allowed e f r)"
  shows "disallow_in_graph e (Ref f) r =
     (Inr (Ref f), fis_add e Disallowed f (fis_remove e Allowed f (snd (allowed_call e r))))"
proof -
  from assms(2) have "is_allowed e f r = (True, snd (allowed_call e r))"
    by (simp add: is_allowed_eq)
  with assms(1) show ?thesis by (simp add: disallow_in_graph_def)
qed

lemma disallow_strict_sets:
  assumes "callable (obj_of e f)" and "fst (is_allowed e f r)"
  shows "function_ids (allowed_function_ids (snd (disallow_in_graph e (Ref f) r))) =
           Some (fst (allowed_call e r) - {f})"
    and "f \<in> fst (disallowed_call e (snd (disallow_in_graph e (Ref f) r)))"
proof -
  let ?r1 = "snd (allowed_call e r)"
  have eq: "snd (disallow_in_graph e (Ref f) r) = fis_add e Disallowed f (fis_remove e Allowed f ?r1)"
    by (simp add: disallow_strict_ref [OF assms])
  show "function_ids (allowed_function_ids (snd (disallow_in_graph e (Ref f) r))) =
           Some (fst (allowed_call e r) - {f})"
    unfolding eq using disallow_nonstrict_allowed_ids [of e f ?r1]
    by (simp add: allowed_call_idem)
  have "function_ids (disallowed_function_ids (fis_add e Disallowed f (fis_remove e Allowed f ?r1))) =
      Some (insert f (fst (disallowed_call e (fis_remove e Allowed f ?r1))))"
    using fis_add_ids [of Disallowed e f "fis_remove e Allowed f ?r1"] by simp
  then show "f \<in> fst (disallowed_call e (snd (disallow_in_graph e (Ref f) r)))"
    unfolding eq by (simp add: disallowed_call_Some)
qed

















lemma allow_total:
  "fst (allow_in_graph e fn r) = (if all_callable e fn then Inr (as_list fn) else Inl AssertionError)"
  "fst (allow_each e fns r) =
     (if list_all (all_callable e) fns then Inr (map as_list fns) else Inl AssertionError)"
  by (induct e fn r and e fns r rule: allow_in_graph_allow_each.induct)
     (auto split: prod.splits sum.splits if_splits)

lemma forbid_total:
  "(\<exists>y. fst (forbid_in_graph e fn r) = Inr y) = all_forbiddable e fn"
  "(\<exists>ys. fst (forbid_each e fns r) = Inr ys) = list_all (all_forbiddable e) fns"
  by (induct e fn r and e fns r rule: forbid_in_graph_forbid_each.induct)
     (auto split: prod.splits sum.splits if_splits option.splits)

lemma allow_Cons:
  "allow_in_graph e (PyList (x # xs)) r =
     (case allow_in_graph e x r of
        (Inl err, r1) \<Rightarrow> (Inl err, r1)
      | (Inr v, r1) \<Rightarrow>
          (case allow_in_graph e (PyList xs) r1 of
             (Inl err, r2) \<Rightarrow> (Inl err, r2)
           | (Inr vs, r2) \<Rightarrow> (Inr (PyList (as_list x # map as_list xs)), r2)))"
proof -
  obtain a r1 where x: "allow_in_graph e x r = (a, r1)" by (cases "allow_in_graph e x r")
  obtain b r2 where xs: "allow_each e xs r1 = (b, r2)" by (cases "allow_each e xs r1")
  show ?thesis
  proof (cases a)
    case (Inl err)
    with x show ?thesis by simp
  next
    case (Inr v)
    with x have v: "v = as_list x" using allow_result_shape(1) [of e x r v] by simp
    show ?thesis
    proof (cases b)
      case (Inl err)
      with x xs Inr show ?thesis by simp
    next
      case (Inr vs)
      with xs have "vs = map as_list xs" using allow_result_shape(2) [of e xs r1 vs] by simp
      with x xs v Inr \<open>a = Inr v\<close> show ?thesis by simp
    qed
  qed
qed

lemma disallow_Cons:
  "disallow_in_graph e (PyList (x # xs)) r =
     (case disallow_in_graph e x r of
        (Inl err, r1) \<Rightarrow> (Inl err, r1)
      | (Inr v, r1) \<Rightarrow>
          (case disallow_in_graph e (PyList xs) r1 of
             (Inl err, r2) \<Rightarrow> (Inl err, r2)
           | (Inr vs, r2) \<Rightarrow> (Inr (PyList (as_list x # map as_list xs)), r2)))"
proof -
  obtain a r1 where x: "disallow_in_graph_helper e True x r = (a, r1)"
    by (cases "disallow_in_graph_helper e True x r")
  obtain b r2 where xs: "disallow_each e xs r1 = (b, r2)" by (cases "disallow_each e xs r1")
  show ?thesis
  proof (cases a)
    case (Inl err)
    with x show ?thesis by (simp add: disallow_in_graph_def)
  next
    case (Inr v)
    with x have v: "v = as_list x" using disallow_result_shape(1) [of e True x r v] by simp
    show ?thesis
    proof (cases b)
      case (Inl err)
      with x xs Inr show ?thesis by (simp add: disallow_in_graph_def)
    next
      case (Inr vs)
      with xs have "vs = map as_list xs" using disallow_result_shape(2) [of e xs r1 vs] by simp
      with x xs v Inr \<open>a = Inr v\<close> show ?thesis by (simp add: disallow_in_graph_def)
    qed
  qed
qed

lemma forbid_Cons:
  "forbid_in_graph e (PyList (x # xs)) r =
     (case forbid_in_graph e x r of
        (Inl err, r1) \<Rightarrow> (Inl err, r1)
      | (Inr v, r1) \<Rightarrow>
          (case forbid_in_graph e (PyList xs) r1 of
             (Inl err, r2) \<Rightarrow> (Inl err, r2)
           | (Inr vs, r2) \<Rightarrow> (Inr (PyList (as_list x # map as_list xs)), r2)))"
proof -
  obtain a r1 where x: "forbid_in_graph e x r = (a, r1)" by (cases "forbid_in_graph e x r")
  obtain b r2 where xs: "forbid_each e xs r1 = (b, r2)" by (cases "forbid_each e xs r1")
  show ?thesis
  proof (cases a)
    case (Inl err)
    with x show ?thesis by simp
  next
    case (Inr v)
    with x have v: "v = as_list x" using forbid_result_shape(1) [of e x r v] by simp
    show ?thesis
    proof (cases b)
      case (Inl err)
      with x xs Inr show ?thesis by simp
    next
      case (Inr vs)
      with xs have "vs = map as_list xs" using forbid_result_shape(2) [of e xs r1 vs] by simp
      with x xs v Inr \<open>a = Inr v\<close> show ?thesis by simp
    qed
  qed
qed

subsection \<open>The example graphs, evaluated\<close>

lemmas demo_simps = demo_heap_def obj_of_def py_module_def py_function_def
  dict_items_def startswith_def is_allowed_module_prefix_def inspect_getmodule_def dotted_def
  allowed_modules_def disallowed_modules_def allowed_modules_dot_def unknown_object_def

lemma demo_fields:
  "heap demo_env = demo_heap" "torch demo_env = 0" "math demo_env = 8"
  "tensor_dir demo_env = [(''add'', 13)]" "is_fx_tracing demo_env = 10"
  "is_compiling demo_env = 11" "ignorelist demo_env = [''torch.nn.sub'']"
  "remove_listed demo_env = [15]"
  "heap demo_env_dot = demo_heap" "torch demo_env_dot = 0" "math demo_env_dot = 8"
  "tensor_dir demo_env_dot = [(''add'', 13)]" "is_fx_tracing demo_env_dot = 10"
  "is_compiling demo_env_dot = 11" "ignorelist demo_env_dot = [''torch.nn.sub.'']"
  "remove_listed demo_env_dot = [15]"
  by (simp_all add: demo_env_def demo_env_dot_def)

lemma demo_torch_walk:
  "find_torch_objects demo_env 0 Map.empty =
     [0 \<mapsto> ''torch'', 1 \<mapsto> ''torch.nn'', 2 \<mapsto> ''torch.nn.sub'', 4 \<mapsto> ''torch.nn.f'',
      3 \<mapsto> ''torch.nn.plus'', 6 \<mapsto> ''torch.float32'']"
  by (simp add: find_torch_objects.simps demo_fields demo_simps)

lemma demo_walk:
  "tensor_methods demo_env (tensor_dir demo_env)
     (find_torch_objects demo_env (math demo_env)
        (find_torch_objects demo_env (torch demo_env) Map.empty)) =
     [0 \<mapsto> ''torch'', 1 \<mapsto> ''torch.nn'', 2 \<mapsto> ''torch.nn.sub'', 4 \<mapsto> ''torch.nn.f'',
      3 \<mapsto> ''torch.nn.plus'', 6 \<mapsto> ''torch.float32'', 8 \<mapsto> ''math'', 9 \<mapsto> ''math.sqrt'',
      13 \<mapsto> ''torch.Tensor.add'']"
  by (simp add: find_torch_objects.simps demo_fields demo_simps)

lemma demo_dot_walk:
  "tensor_methods demo_env_dot (tensor_dir demo_env_dot)
     (find_torch_objects demo_env_dot (math demo_env_dot)
        (find_torch_objects demo_env_dot (torch demo_env_dot) Map.empty)) =
     [0 \<mapsto> ''torch'', 1 \<mapsto> ''torch.nn'', 2 \<mapsto> ''torch.nn.sub'', 5 \<mapsto> ''torch.nn.sub.g'',
      4 \<mapsto> ''torch.nn.f'', 3 \<mapsto> ''torch.nn.plus'', 6 \<mapsto> ''torch.float32'', 8 \<mapsto> ''math'',
      9 \<mapsto> ''math.sqrt'', 13 \<mapsto> ''torch.Tensor.add'']"
  by (simp add: find_torch_objects.simps demo_fields demo_simps)

lemma demo_disallowed_init:
  "disallowed_init demo_env = {15, 6}" "disallowed_init demo_env_dot = {15, 6}"
  by (auto simp: disallowed_init_def demo_fields demo_simps)

lemma demo_names:
  "torch_object_ids demo_env {15, 6} 2 = Some ''torch.nn.sub''"
  "torch_object_ids demo_env {15, 6} 3 = Some ''torch.nn.plus''"
  "torch_object_ids demo_env {15, 6} 7 = None"
  "torch_object_ids demo_env {15, 6} 12 = None"
  by (simp_all add: torch_object_ids_def demo_walk) (simp_all add: demo_fields)

lemma demo_dot_names:
  "torch_object_ids demo_env_dot {15, 6} 5 = Some ''torch.nn.sub.g''"
  by (simp add: torch_object_ids_def demo_dot_walk) (simp add: demo_fields)


lemma demo_callable:
  "callable (obj_of demo_env 3)" "callable (obj_of demo_env 7)" "callable (obj_of demo_env 12)"
  "setattr_error (obj_of demo_env 7) = None" "\<not> is_op_dispatch (obj_of demo_env 7)"
  "is_op_dispatch (obj_of demo_env 12)" "\<not> is_op_dispatch (obj_of demo_env 3)"
  "module_dict (obj_of demo_env 3) = None"
  by (simp_all add: demo_fields demo_simps)









section \<open>The claims\<close>

subsection \<open>C1: the two sets are disjoint\<close>

text \<open>
  Claim C1. In every registry state reached from the initial one by any sequence of
  discovery, queries, allow, disallow (strict or not) and forbid operations, on single
  objects or sequences, whether or not they raise, no identity is in both the allowed set
  and the disallowed set as a query sees them. Initialization of the allowed set deletes
  what the disallowed set holds; \<open>allow_in_graph\<close> on a callable puts its identity in the
  allowed set and takes it out of the disallowed set; the public \<open>disallow_in_graph\<close> on a
  callable that \<open>is_allowed\<close> accepts returns it, takes its identity out of the allowed set
  and puts it in the disallowed set, and so does the disallow path without the strict test
  on any callable. The two extras \<open>is_fx_tracing\<close> and \<open>is_compiling\<close> are written
  after the deletion, and the hypotheses record that neither is among the objects
  \<open>_disallowed_function_ids\<close> starts with: both are plain functions, and the initializer
  lists neither and collects only dtypes and storage classes.
\<close>

theorem allowed_disallowed_disjoint:
  assumes "is_fx_tracing e \<notin> disallowed_init e" and "is_compiling e \<notin> disallowed_init e"
    and "r = perform_all e acts initial_registry"
  shows "\<not> (f \<in> fst (allowed_call e r) \<and> f \<in> fst (disallowed_call e r)) \<and>
         (callable (obj_of e f) \<longrightarrow>
            f \<in> fst (allowed_call e (snd (allow_in_graph e (Ref f) r))) \<and>
            f \<notin> fst (disallowed_call e (snd (allow_in_graph e (Ref f) r))) \<and>
            f \<notin> fst (allowed_call e (snd (disallow_in_graph_helper e False (Ref f) r))) \<and>
            f \<in> fst (disallowed_call e (snd (disallow_in_graph_helper e False (Ref f) r)))) \<and>
         (callable (obj_of e f) \<longrightarrow> fst (is_allowed e f r) \<longrightarrow>
            fst (disallow_in_graph e (Ref f) r) = Inr (Ref f) \<and>
            f \<notin> fst (allowed_call e (snd (disallow_in_graph e (Ref f) r))) \<and>
            f \<in> fst (disallowed_call e (snd (disallow_in_graph e (Ref f) r))))"
proof -
  have "disjoint_sets initial_registry"
    by (simp add: disjoint_sets_def initial_registry_def)
  then have inv: "disjoint_sets r"
    using assms by (simp add: disjoint_sets_perform_all)
  have 1: "\<not> (f \<in> fst (allowed_call e r) \<and> f \<in> fst (disallowed_call e r))"
    using disjoint_views [OF assms(1,2) inv] by auto
  have 2: "f \<in> fst (allowed_call e (snd (allow_in_graph e (Ref f) r))) \<and>
           f \<notin> fst (disallowed_call e (snd (allow_in_graph e (Ref f) r)))"
    if c: "callable (obj_of e f)"
    using allow_ref_sets [OF c, of r]
    by (simp add: allowed_call_Some disallowed_call_Some)
  have 3: "f \<notin> fst (allowed_call e (snd (disallow_in_graph_helper e False (Ref f) r))) \<and>
           f \<in> fst (disallowed_call e (snd (disallow_in_graph_helper e False (Ref f) r)))"
    if c: "callable (obj_of e f)"
    using c fis_add_ids [of Disallowed e f "fis_remove e Allowed f r"]
    by (simp add: allowed_call_Some [OF disallow_nonstrict_allowed_ids] disallowed_call_Some)
  have 4: "fst (disallow_in_graph e (Ref f) r) = Inr (Ref f) \<and>
           f \<notin> fst (allowed_call e (snd (disallow_in_graph e (Ref f) r))) \<and>
           f \<in> fst (disallowed_call e (snd (disallow_in_graph e (Ref f) r)))"
    if c: "callable (obj_of e f)" and a: "fst (is_allowed e f r)"
  proof -
    have "fst (disallow_in_graph e (Ref f) r) = Inr (Ref f)"
      by (simp add: disallow_strict_ref [OF c a])
    moreover have "f \<notin> fst (allowed_call e (snd (disallow_in_graph e (Ref f) r)))"
      unfolding allowed_call_Some [OF disallow_strict_sets(1) [OF c a]] by simp
    ultimately show ?thesis using disallow_strict_sets(2) [OF c a] by blast
  qed
  from 1 2 3 4 show ?thesis by blast
qed

theorem allowed_disallowed_disjoint_witness:
  "is_fx_tracing demo_env \<notin> disallowed_init demo_env \<and>
   is_compiling demo_env \<notin> disallowed_init demo_env \<and>
   demo_reached = perform_all demo_env demo_actions initial_registry \<and>
   callable (obj_of demo_env 3) \<and>
   \<not> (3 \<in> fst (allowed_call demo_env demo_reached) \<and>
      3 \<in> fst (disallowed_call demo_env demo_reached)) \<and>
   3 \<in> fst (allowed_call demo_env (snd (allow_in_graph demo_env (Ref 3) demo_reached))) \<and>
   3 \<notin> fst (disallowed_call demo_env (snd (allow_in_graph demo_env (Ref 3) demo_reached))) \<and>
   3 \<notin> fst (allowed_call demo_env
              (snd (disallow_in_graph_helper demo_env False (Ref 3) demo_reached))) \<and>
   3 \<in> fst (disallowed_call demo_env
              (snd (disallow_in_graph_helper demo_env False (Ref 3) demo_reached))) \<and>
   demo_after_allow = perform_all demo_env [Allow (Ref 7)] initial_registry \<and>
   callable (obj_of demo_env 7) \<and> fst (is_allowed demo_env 7 demo_after_allow) \<and>
   fst (disallow_in_graph demo_env (Ref 7) demo_after_allow) = Inr (Ref 7) \<and>
   7 \<notin> fst (allowed_call demo_env (snd (disallow_in_graph demo_env (Ref 7) demo_after_allow))) \<and>
   7 \<in> fst (disallowed_call demo_env (snd (disallow_in_graph demo_env (Ref 7) demo_after_allow)))"
proof -
  have h1: "is_fx_tracing demo_env \<notin> disallowed_init demo_env"
    and h2: "is_compiling demo_env \<notin> disallowed_init demo_env"
    by (simp_all add: demo_disallowed_init demo_fields)
  have h3: "demo_reached = perform_all demo_env demo_actions initial_registry"
    by (simp only: demo_reached_def)
  have h4: "demo_after_allow = perform_all demo_env [Allow (Ref 7)] initial_registry"
    by (simp only: demo_after_allow_def)
  have "demo_after_allow = snd (allow_in_graph demo_env (Ref 7) initial_registry)"
    by (simp add: demo_after_allow_def)
  then have "function_ids (allowed_function_ids demo_after_allow) =
      Some (insert 7 (fst (allowed_call demo_env initial_registry)))"
    using allow_ref_sets(1) [OF demo_callable(2), of initial_registry] by simp
  then have h5: "fst (is_allowed demo_env 7 demo_after_allow)"
    by (simp add: is_allowed_Some)
  from allowed_disallowed_disjoint [OF h1 h2 h3, of 3]
    allowed_disallowed_disjoint [OF h1 h2 h4, of 7]
    demo_callable(1) demo_callable(2) h1 h2 h3 h4 h5
  show ?thesis by blast
qed

subsection \<open>C2: discovery terminates\<close>

text \<open>
  Claim C2. On every finite namespace graph, cycles included, the discovery walk
  terminates and its dictionary is finite. The heap is a finite list and a binding may
  name any identity, an ancestor too. Every call of \<open>_find_torch_objects\<close>, from any
  dictionary, lies in the domain of the recursion (the accessible part of its call
  relation: every chain of nested calls from it is finite); the two root calls of
  discovery give a finite dictionary, the allowed set that discovery produces is finite,
  and a call from any finite dictionary gives a finite one; a binding whose identity
  already has an entry is passed over with neither a recursive call nor a change.
\<close>

theorem discovery_terminates:
  "find_torch_objects_scan_items_dom (Inl (e, module, ids)) \<and>
   finite (dom (find_torch_objects e (math e) (find_torch_objects e (torch e) Map.empty))) \<and>
   finite (fst (allowed_call e initial_registry)) \<and>
   (finite (dom ids) \<longrightarrow> finite (dom (find_torch_objects e module ids))) \<and>
   (ids c \<noteq> None \<longrightarrow>
      scan_items e mname ((name, c) # rest) ids = scan_items e mname rest ids)"
proof -
  have "find_torch_objects_scan_items_dom (Inl (e, module, ids))"
    using find_torch_objects_total by blast
  moreover have "finite (dom (find_torch_objects e (math e)
      (find_torch_objects e (torch e) Map.empty)))"
    by (intro finite_dom_traversal(1)) simp
  moreover have "finite (fst (allowed_call e initial_registry))"
    by (simp add: allowed_call_initial finite_dom_torch_object_ids)
  moreover have "ids c \<noteq> None \<longrightarrow>
      scan_items e mname ((name, c) # rest) ids = scan_items e mname rest ids"
  proof
    assume "ids c \<noteq> None"
    then obtain n where "ids c = Some n" by auto
    then show "scan_items e mname ((name, c) # rest) ids = scan_items e mname rest ids"
      unfolding scan_items_Cons by simp
  qed
  ultimately show ?thesis using finite_dom_traversal(1) by blast
qed

theorem discovery_terminates_witness:
  "find_torch_objects_scan_items_dom (Inl (demo_env, 0, Map.empty)) \<and>
   finite (dom (Map.empty :: names)) \<and>
   finite (dom (find_torch_objects demo_env 0 Map.empty)) \<and>
   [0 \<mapsto> ''torch''] (0::oid) \<noteq> None \<and>
   scan_items demo_env ''torch.nn'' [(''root'', 0)] [0 \<mapsto> ''torch''] =
     scan_items demo_env ''torch.nn'' [] [0 \<mapsto> ''torch''] \<and>
   find_torch_objects demo_env 0 Map.empty 1 = Some ''torch.nn''"
proof -
  have f: "finite (dom (Map.empty :: names))" by simp
  have g: "[0 \<mapsto> ''torch''] (0::oid) \<noteq> None" by simp
  have v: "find_torch_objects demo_env 0 Map.empty 1 = Some ''torch.nn''"
    by (simp add: demo_torch_walk)
  from discovery_terminates [of demo_env 0 Map.empty 0 "''torch.nn''" "''root''" "[]"] f
    discovery_terminates [of demo_env 0 "[0 \<mapsto> ''torch'']" 0 "''torch.nn''" "''root''" "[]"] g v
  show ?thesis by blast
qed

subsection \<open>C3: allow, then disallow without the strict test\<close>

text \<open>
  Claim C3 says that \<open>allow(f)\<close> followed by the non-strict disallow leaves
  \<open>is_allowed(f)\<close> false for every callable \<open>f\<close>. \<open>is_allowed\<close> also answers true for every
  instance of \<open>OpOverloadPacket\<close>, \<open>OpOverload\<close> or \<open>_OpNamespace\<close>, whatever the sets hold,
  and such an object is callable: for the overload packet of the example the answer after
  both calls is true.
\<close>

theorem dispatch_object_stays_allowed_counterexample:
  "callable (obj_of demo_env 12) \<and>
   fst (is_allowed demo_env 12
         (snd (disallow_in_graph_helper demo_env False (Ref 12)
                 (snd (allow_in_graph demo_env (Ref 12) initial_registry))))) = True"
proof -
  have "fst (is_allowed demo_env 12 r) = True" for r
    unfolding is_allowed_eq using demo_callable(6) by simp
  with demo_callable(3) show ?thesis by blast
qed

text \<open>
  Claim C3, amended. For every callable \<open>f\<close> that is not an instance of one of the three
  dispatch types, and from every registry, \<open>allow_in_graph(f)\<close> followed by the disallow
  path with \<open>throw_if_not_allowed=False\<close> leaves \<open>is_allowed(f)\<close> false.
\<close>

theorem allow_then_disallow_not_allowed:
  assumes "callable (obj_of e f)" and "\<not> is_op_dispatch (obj_of e f)"
  shows "fst (is_allowed e f
           (snd (disallow_in_graph_helper e False (Ref f) (snd (allow_in_graph e (Ref f) r))))) = False"
  using assms
  by (simp add: is_allowed_Some [OF disallow_nonstrict_allowed_ids])

theorem allow_then_disallow_not_allowed_witness:
  "callable (obj_of demo_env 7) \<and> \<not> is_op_dispatch (obj_of demo_env 7) \<and>
   fst (is_allowed demo_env 7
         (snd (disallow_in_graph_helper demo_env False (Ref 7)
                 (snd (allow_in_graph demo_env (Ref 7) initial_registry))))) = False"
  using allow_then_disallow_not_allowed [OF demo_callable(2) demo_callable(5), of initial_registry]
    demo_callable(2) demo_callable(5)
  by blast

subsection \<open>C4: strict disallow of a callable that is not allowed\<close>

text \<open>
  Claim C4 says that \<open>disallow_in_graph(f)\<close> raises \<open>IncorrectUsage\<close> and changes nothing
  for every callable \<open>f\<close> that is not in the allowed set. The strict test is
  \<open>not is_allowed(fn)\<close>, and \<open>is_allowed\<close> is true for every dispatch-wrapper object
  whatever the sets hold. The overload packet of the example is callable and in neither
  set; \<open>disallow_in_graph\<close> returns it, and its identity is in the disallowed set
  afterwards.
\<close>

theorem strict_disallow_dispatch_counterexample:
  "callable (obj_of demo_env 12) \<and>
   12 \<notin> fst (allowed_call demo_env initial_registry) \<and>
   12 \<notin> fst (disallowed_call demo_env initial_registry) \<and>
   fst (disallow_in_graph demo_env (Ref 12) initial_registry) = Inr (Ref 12) \<and>
   fst (disallow_in_graph demo_env (Ref 12) initial_registry) \<noteq> Inl IncorrectUsage \<and>
   12 \<in> fst (disallowed_call demo_env (snd (disallow_in_graph demo_env (Ref 12) initial_registry)))"
proof -
  have a: "fst (is_allowed demo_env 12 initial_registry)"
    using demo_callable(6) by (simp add: is_allowed_eq)
  have "12 \<notin> fst (allowed_call demo_env initial_registry)"
    by (simp add: allowed_call_initial demo_disallowed_init domIff demo_names)
  moreover have "12 \<notin> fst (disallowed_call demo_env initial_registry)"
    by (simp add: disallowed_call_eq initial_registry_def demo_disallowed_init)
  moreover have "fst (disallow_in_graph demo_env (Ref 12) initial_registry) = Inr (Ref 12)"
    by (simp add: disallow_strict_ref [OF demo_callable(3) a])
  ultimately show ?thesis
    using demo_callable(3) disallow_strict_sets(2) [OF demo_callable(3) a] by simp
qed

text \<open>
  Claim C4, amended. For every callable \<open>f\<close> that is not in the allowed set and is not an
  instance of \<open>OpOverloadPacket\<close>, \<open>OpOverload\<close> or \<open>_OpNamespace\<close>, \<open>disallow_in_graph(f)\<close>
  raises \<open>IncorrectUsage\<close> and the classification is as before: the allowed set and the
  disallowed set, as a query sees them, are the same after the call, and when the allowed
  set was already initialized the registry is the same record. Otherwise the only change
  is the lazy initialization that the test \<open>is_allowed(f)\<close> itself triggers.
\<close>

theorem strict_disallow_raises_unchanged:
  assumes "callable (obj_of e f)" and "f \<notin> fst (allowed_call e r)"
    and "\<not> is_op_dispatch (obj_of e f)"
  shows "disallow_in_graph e (Ref f) r = (Inl IncorrectUsage, snd (is_allowed e f r)) \<and>
         fst (allowed_call e (snd (disallow_in_graph e (Ref f) r))) = fst (allowed_call e r) \<and>
         fst (disallowed_call e (snd (disallow_in_graph e (Ref f) r))) = fst (disallowed_call e r) \<and>
         (function_ids (allowed_function_ids r) \<noteq> None \<longrightarrow>
            snd (disallow_in_graph e (Ref f) r) = r)"
proof -
  have 1: "disallow_in_graph e (Ref f) r = (Inl IncorrectUsage, snd (allowed_call e r))"
    using assms by (simp add: disallow_in_graph_def is_allowed_eq)
  have 2: "snd (is_allowed e f r) = snd (allowed_call e r)"
    by (simp add: is_allowed_eq)
  have 3: "fst (allowed_call e (snd (disallow_in_graph e (Ref f) r))) = fst (allowed_call e r)"
    by (simp add: 1 allowed_call_idem)
  have 4: "fst (disallowed_call e (snd (disallow_in_graph e (Ref f) r))) =
      fst (disallowed_call e r)"
    by (simp add: 1 allowed_call_disallowed_view)
  have 5: "function_ids (allowed_function_ids r) \<noteq> None \<longrightarrow>
      snd (disallow_in_graph e (Ref f) r) = r"
    by (auto simp: 1 allowed_call_Some)
  from 1 2 3 4 5 show ?thesis by simp
qed

theorem strict_disallow_raises_unchanged_witness:
  "callable (obj_of demo_env 7) \<and>
   7 \<notin> fst (allowed_call demo_env (snd (allowed_call demo_env initial_registry))) \<and>
   \<not> is_op_dispatch (obj_of demo_env 7) \<and>
   function_ids (allowed_function_ids (snd (allowed_call demo_env initial_registry))) \<noteq> None \<and>
   disallow_in_graph demo_env (Ref 7) (snd (allowed_call demo_env initial_registry)) =
     (Inl IncorrectUsage, snd (is_allowed demo_env 7 (snd (allowed_call demo_env initial_registry)))) \<and>
   snd (disallow_in_graph demo_env (Ref 7) (snd (allowed_call demo_env initial_registry))) =
     snd (allowed_call demo_env initial_registry)"
proof -
  let ?r = "snd (allowed_call demo_env initial_registry)"
  have a: "7 \<notin> fst (allowed_call demo_env ?r)"
    by (simp add: allowed_ids_discovered demo_disallowed_init domIff demo_names)
  have m: "function_ids (allowed_function_ids ?r) \<noteq> None"
    by (simp add: allowed_call_materialized)
  from strict_disallow_raises_unchanged [OF demo_callable(2) a demo_callable(5)]
    demo_callable(2) a demo_callable(5) m
  show ?thesis by blast
qed

subsection \<open>C5: the ignore list\<close>

text \<open>
  Claim C5 says that after discovery no identity whose qualified name starts with an
  ignore-list prefix \<open>p\<close> is in the allowed set. The walk tests the prefix against the
  \<open>__name__\<close> of the namespace it is about to enumerate, and only there. With the prefix
  \<open>torch.nn.sub.\<close> the namespace \<open>torch.nn.sub\<close> is not matched, and its function \<open>g\<close> is
  recorded as \<open>torch.nn.sub.g\<close>. With the prefix \<open>torch.nn.sub\<close> the namespace is matched
  and not enumerated, but its own identity was recorded as \<open>torch.nn.sub\<close> by the parent's
  loop before the call.
\<close>

theorem ignorelist_prefix_counterexample:
  "''torch.nn.sub.'' \<in> set (ignorelist demo_env_dot) \<and>
   startswith ''torch.nn.sub.g'' ''torch.nn.sub.'' \<and>
   5 \<in> fst (allowed_call demo_env_dot initial_registry) \<and>
   fst (torch_get_name demo_env_dot 5 [] (snd (allowed_call demo_env_dot initial_registry))) =
     Inr ''torch.nn.sub.g'' \<and>
   ''torch.nn.sub'' \<in> set (ignorelist demo_env) \<and>
   startswith ''torch.nn.sub'' ''torch.nn.sub'' \<and>
   2 \<in> fst (allowed_call demo_env initial_registry) \<and>
   fst (torch_get_name demo_env 2 [] (snd (allowed_call demo_env initial_registry))) =
     Inr ''torch.nn.sub''"
proof -
  have "5 \<in> fst (allowed_call demo_env_dot initial_registry)"
    "2 \<in> fst (allowed_call demo_env initial_registry)"
    by (simp_all add: allowed_call_initial demo_disallowed_init domIff demo_names demo_dot_names)
  moreover have
    "fst (torch_get_name demo_env_dot 5 [] (snd (allowed_call demo_env_dot initial_registry))) =
       Inr ''torch.nn.sub.g''"
    "fst (torch_get_name demo_env 2 [] (snd (allowed_call demo_env initial_registry))) =
       Inr ''torch.nn.sub''"
    by (simp_all add: torch_get_name_discovered demo_disallowed_init demo_names demo_dot_names)
  moreover have "startswith ''torch.nn.sub.g'' ''torch.nn.sub.''"
    "startswith ''torch.nn.sub'' ''torch.nn.sub''"
    by (simp_all add: startswith_def)
  ultimately show ?thesis by (simp add: demo_fields)
qed

text \<open>
  Claim C5, amended. A namespace whose \<open>__name__\<close> starts with an ignore-list prefix is
  never enumerated, however many paths reach it: every entry the walk writes is either the
  \<open>__name__\<close> of a namespace that no prefix matches, written for that namespace, or
  \<open>parent.child\<close> for a binding \<open>child\<close> of the identity in a namespace \<open>parent\<close> that no
  prefix matches. So a written name that starts with a prefix \<open>p\<close> of the list is always
  of the second kind. The identity of an ignored namespace can still be recorded by its
  parent's loop, and an object can be recorded under a name that starts with \<open>p\<close> when a
  namespace that is not ignored binds it.
\<close>

theorem ignorelist_names:
  "(find_torch_objects e module ids i = Some n \<longrightarrow> ids i \<noteq> Some n \<longrightarrow>
      (\<exists>m. \<not> list_ex (startswith (obj_name (obj_of e m))) (ignorelist e) \<and>
           ((i = m \<and> n = obj_name (obj_of e m)) \<or>
            (\<exists>child. (child, i) \<in> set (dict_items (obj_of e m)) \<and>
                     n = dotted (obj_name (obj_of e m)) child)))) \<and>
   (find_torch_objects e module ids i = Some n \<longrightarrow> ids i \<noteq> Some n \<longrightarrow>
    p \<in> set (ignorelist e) \<longrightarrow> startswith n p \<longrightarrow>
      (\<exists>m child. \<not> list_ex (startswith (obj_name (obj_of e m))) (ignorelist e) \<and>
           (child, i) \<in> set (dict_items (obj_of e m)) \<and>
           n = dotted (obj_name (obj_of e m)) child))"
proof -
  have 1: "named_from e i n"
    if "find_torch_objects e module ids i = Some n" "ids i \<noteq> Some n"
    using recorded_names(1) [OF that(1)] that(2) by blast
  have 2: "\<exists>m child. \<not> list_ex (startswith (obj_name (obj_of e m))) (ignorelist e) \<and>
           (child, i) \<in> set (dict_items (obj_of e m)) \<and>
           n = dotted (obj_name (obj_of e m)) child"
    if "named_from e i n" "p \<in> set (ignorelist e)" "startswith n p"
  proof -
    from that(1) obtain m where m: "\<not> list_ex (startswith (obj_name (obj_of e m))) (ignorelist e)"
      and c: "(i = m \<and> n = obj_name (obj_of e m)) \<or>
           (\<exists>child. (child, i) \<in> set (dict_items (obj_of e m)) \<and>
                    n = dotted (obj_name (obj_of e m)) child)"
      unfolding named_from_def by blast
    have "n \<noteq> obj_name (obj_of e m)"
      using m that(2,3) by (auto simp: list_ex_iff)
    with m c show ?thesis by blast
  qed
  from 1 2 show ?thesis unfolding named_from_def by blast
qed

theorem ignorelist_names_witness:
  "find_torch_objects demo_env 0 Map.empty 2 = Some ''torch.nn.sub'' \<and>
   (Map.empty :: names) 2 \<noteq> Some ''torch.nn.sub'' \<and>
   ''torch.nn.sub'' \<in> set (ignorelist demo_env) \<and>
   startswith ''torch.nn.sub'' ''torch.nn.sub'' \<and>
   (\<exists>m child. \<not> list_ex (startswith (obj_name (obj_of demo_env m))) (ignorelist demo_env) \<and>
        (child, 2) \<in> set (dict_items (obj_of demo_env m)) \<and>
        ''torch.nn.sub'' = dotted (obj_name (obj_of demo_env m)) child)"
proof -
  have a: "find_torch_objects demo_env 0 Map.empty 2 = Some ''torch.nn.sub''"
    by (simp add: demo_torch_walk)
  have b: "(Map.empty :: names) 2 \<noteq> Some ''torch.nn.sub''" by simp
  have c: "''torch.nn.sub'' \<in> set (ignorelist demo_env)" by (simp add: demo_fields)
  have d: "startswith ''torch.nn.sub'' ''torch.nn.sub''" by (simp add: startswith_def)
  from ignorelist_names [of demo_env 0 Map.empty 2 "''torch.nn.sub''" "''torch.nn.sub''"] a b c d
  show ?thesis by blast
qed

subsection \<open>C6: \<open>get_name\<close> on a set without names\<close>

text \<open>
  Claim C6 says that \<open>get_name\<close> never raises, also on a set whose initializer returns a
  plain set. On the disallowed set \<open>__call__\<close> fills \<open>function_ids\<close> only, \<open>function_names\<close>
  stays \<open>None\<close>, and \<open>self.function_names.get(idx, default)\<close> raises \<open>AttributeError\<close>: on
  the fresh registry and after discovery alike, for every identity and default.
\<close>

theorem get_name_raises_on_disallowed_set:
  "fst (fis_get_name e Disallowed idx dflt initial_registry) = Inl AttributeError \<and>
   fst (fis_get_name e Disallowed idx dflt (snd (allowed_call e initial_registry))) =
     Inl AttributeError"
  by (simp add: fis_get_name_def disallowed_call_eq allowed_call_initial)
     (simp add: initial_registry_def)

theorem get_name_raises_on_disallowed_set_witness:
  "fst (fis_get_name demo_env Disallowed 15 ''x'' initial_registry) = Inl AttributeError \<and>
   fst (fis_get_name demo_env Disallowed 15 ''x'' (snd (allowed_call demo_env initial_registry))) =
     Inl AttributeError"
  by (rule get_name_raises_on_disallowed_set)

subsection \<open>C7: the display name\<close>




subsection \<open>C8: forbid leaves the classification alone\<close>

text \<open>
  Claim C8. \<open>forbid_in_graph\<close>, on a callable or on a sequence, raising or not, leaves the
  allowed set and the disallowed set of the registry untouched, so \<open>is_allowed\<close> answers
  the same for every object before and after; on a single object it sets the attribute
  \<open>_dynamo_forbidden\<close> on that object alone, when the object is callable and the
  assignment raises nothing.
\<close>

theorem forbid_keeps_classification:
  "allowed_function_ids (snd (forbid_in_graph e fn r)) = allowed_function_ids r \<and>
   disallowed_function_ids (snd (forbid_in_graph e fn r)) = disallowed_function_ids r \<and>
   fst (is_allowed e x (snd (forbid_in_graph e fn r))) = fst (is_allowed e x r) \<and>
   dynamo_forbidden (snd (forbid_in_graph e (Ref f) r)) =
     (if callable (obj_of e f) \<and> setattr_error (obj_of e f) = None
      then insert f (dynamo_forbidden r) else dynamo_forbidden r)"
proof -
  have fr: "allowed_function_ids (snd (forbid_in_graph e fn r)) = allowed_function_ids r"
    "disallowed_function_ids (snd (forbid_in_graph e fn r)) = disallowed_function_ids r"
    using forbid_frame(1) [of e fn r] by simp_all
  have "fst (allowed_call e (snd (forbid_in_graph e fn r))) = fst (allowed_call e r)"
    by (rule allowed_view_cong [OF fr])
  then have "fst (is_allowed e x (snd (forbid_in_graph e fn r))) = fst (is_allowed e x r)"
    by (simp add: is_allowed_eq)
  with fr show ?thesis by (simp split: option.splits)
qed

theorem forbid_keeps_classification_witness:
  "callable (obj_of demo_env 7) \<and> setattr_error (obj_of demo_env 7) = None \<and>
   allowed_function_ids (snd (forbid_in_graph demo_env (Ref 7) demo_reached)) =
     allowed_function_ids demo_reached \<and>
   disallowed_function_ids (snd (forbid_in_graph demo_env (Ref 7) demo_reached)) =
     disallowed_function_ids demo_reached \<and>
   fst (is_allowed demo_env 7 (snd (forbid_in_graph demo_env (Ref 7) demo_reached))) =
     fst (is_allowed demo_env 7 demo_reached) \<and>
   dynamo_forbidden (snd (forbid_in_graph demo_env (Ref 7) demo_reached)) =
     insert 7 (dynamo_forbidden demo_reached)"
  using forbid_keeps_classification [of demo_env "Ref 7" demo_reached 7 7]
    demo_callable(2) demo_callable(4)
  by simp

subsection \<open>C9: allow is idempotent\<close>

text \<open>
  Claim C9. From every registry, \<open>allow_in_graph(f)\<close> applied a second time returns the
  same result and leaves the registry exactly as the first application left it: the
  allowed set, the disallowed set, and with them the answer of \<open>is_allowed\<close> for every
  object.
\<close>

theorem allow_in_graph_idempotent:
  "allow_in_graph e (Ref f) (snd (allow_in_graph e (Ref f) r)) = allow_in_graph e (Ref f) r \<and>
   is_allowed e x (snd (allow_in_graph e (Ref f) (snd (allow_in_graph e (Ref f) r)))) =
     is_allowed e x (snd (allow_in_graph e (Ref f) r))"
proof -
  have "allow_in_graph e (Ref f) (snd (allow_in_graph e (Ref f) r)) = allow_in_graph e (Ref f) r"
  proof (cases "callable (obj_of e f)")
    case False
    then show ?thesis by simp
  next
    case True
    define r2 where "r2 = snd (allow_in_graph e (Ref f) r)"
    have a: "function_ids (the_set Allowed r2) = Some (insert f (fst (allowed_call e r)))"
      and d: "function_ids (the_set Disallowed r2) =
             Some (fst (disallowed_call e (fis_add e Allowed f r)) - {f})"
      using allow_ref_sets [OF True, of r] by (simp_all add: r2_def)
    have "fis_add e Allowed f r2 = r2"
      by (rule fis_add_absorb [OF a]) simp
    moreover have "fis_remove e Disallowed f r2 = r2"
      by (rule fis_remove_absent [OF d]) simp
    ultimately have "allow_in_graph e (Ref f) r2 = (Inr (Ref f), r2)"
      using True by simp
    moreover have "allow_in_graph e (Ref f) r = (Inr (Ref f), r2)"
      using True by (simp add: r2_def)
    ultimately show ?thesis by (simp add: r2_def)
  qed
  then show ?thesis by simp
qed

theorem allow_in_graph_idempotent_witness:
  "allow_in_graph demo_env (Ref 7) (snd (allow_in_graph demo_env (Ref 7) initial_registry)) =
     allow_in_graph demo_env (Ref 7) initial_registry \<and>
   is_allowed demo_env 3
      (snd (allow_in_graph demo_env (Ref 7) (snd (allow_in_graph demo_env (Ref 7) initial_registry)))) =
     is_allowed demo_env 3 (snd (allow_in_graph demo_env (Ref 7) initial_registry))"
  by (rule allow_in_graph_idempotent)

subsection \<open>C10: sequences\<close>

text \<open>
  Claim C10 says that on a list or tuple each entry point returns its argument in the same
  shape. Each entry point returns the list comprehension over the elements, which is a
  list: a tuple goes in and a list comes out.
\<close>

theorem tuple_returns_list_counterexample:
  "callable (obj_of demo_env 7) \<and>
   fst (allow_in_graph demo_env (PyTuple [Ref 7]) initial_registry) = Inr (PyList [Ref 7]) \<and>
   fst (allow_in_graph demo_env (PyTuple [Ref 7]) initial_registry) \<noteq> Inr (PyTuple [Ref 7])"
  using demo_callable(2) by simp

text \<open>
  Claim C10, amended. On a list or a tuple, \<open>allow_in_graph\<close>, \<open>disallow_in_graph\<close> and
  \<open>forbid_in_graph\<close> treat both kinds alike and apply themselves to the elements from left
  to right, the strict \<open>disallow_in_graph\<close> applying the strict \<open>disallow_in_graph\<close>: the
  call on the empty sequence returns the empty list and changes nothing; the call on a
  sequence raises what its first raising element raises, keeping the effect of the
  elements before it, and returns when every element returns. A call that returns gives,
  for a single callable, that callable, and for a list or tuple a list of the same
  elements in the same order, nested tuples turned into lists as well. On a single
  object: \<open>allow_in_graph\<close> returns a callable and raises the assertion otherwise, so on
  any argument it returns exactly when every object in it is callable;
  \<open>disallow_in_graph\<close> returns a callable that \<open>is_allowed\<close> accepts, raises
  \<open>IncorrectUsage\<close> on a callable it does not, and the assertion otherwise;
  \<open>forbid_in_graph\<close> returns exactly when every object is callable and the assignment of
  the attribute raises nothing, and raises the assertion or the assignment's error
  otherwise.
\<close>

theorem sequence_entry_points:
  "(fst (allow_in_graph e fn r) = Inr y \<longrightarrow> y = as_list fn) \<and>
   (fst (disallow_in_graph e fn r) = Inr y \<longrightarrow> y = as_list fn) \<and>
   (fst (forbid_in_graph e fn r) = Inr y \<longrightarrow> y = as_list fn) \<and>
   allow_in_graph e (PyTuple fns) r = allow_in_graph e (PyList fns) r \<and>
   disallow_in_graph e (PyTuple fns) r = disallow_in_graph e (PyList fns) r \<and>
   forbid_in_graph e (PyTuple fns) r = forbid_in_graph e (PyList fns) r \<and>
   allow_in_graph e (PyList []) r = (Inr (PyList []), r) \<and>
   disallow_in_graph e (PyList []) r = (Inr (PyList []), r) \<and>
   forbid_in_graph e (PyList []) r = (Inr (PyList []), r) \<and>
   allow_in_graph e (PyList (x # xs)) r =
     (case allow_in_graph e x r of
        (Inl err, r1) \<Rightarrow> (Inl err, r1)
      | (Inr v, r1) \<Rightarrow>
          (case allow_in_graph e (PyList xs) r1 of
             (Inl err, r2) \<Rightarrow> (Inl err, r2)
           | (Inr vs, r2) \<Rightarrow> (Inr (PyList (as_list x # map as_list xs)), r2))) \<and>
   disallow_in_graph e (PyList (x # xs)) r =
     (case disallow_in_graph e x r of
        (Inl err, r1) \<Rightarrow> (Inl err, r1)
      | (Inr v, r1) \<Rightarrow>
          (case disallow_in_graph e (PyList xs) r1 of
             (Inl err, r2) \<Rightarrow> (Inl err, r2)
           | (Inr vs, r2) \<Rightarrow> (Inr (PyList (as_list x # map as_list xs)), r2))) \<and>
   forbid_in_graph e (PyList (x # xs)) r =
     (case forbid_in_graph e x r of
        (Inl err, r1) \<Rightarrow> (Inl err, r1)
      | (Inr v, r1) \<Rightarrow>
          (case forbid_in_graph e (PyList xs) r1 of
             (Inl err, r2) \<Rightarrow> (Inl err, r2)
           | (Inr vs, r2) \<Rightarrow> (Inr (PyList (as_list x # map as_list xs)), r2))) \<and>
   fst (allow_in_graph e fn r) =
     (if all_callable e fn then Inr (as_list fn) else Inl AssertionError) \<and>
   (callable (obj_of e f) \<longrightarrow> fst (is_allowed e f r) \<longrightarrow>
      fst (disallow_in_graph e (Ref f) r) = Inr (Ref f)) \<and>
   (callable (obj_of e f) \<longrightarrow> \<not> fst (is_allowed e f r) \<longrightarrow>
      fst (disallow_in_graph e (Ref f) r) = Inl IncorrectUsage) \<and>
   (\<not> callable (obj_of e f) \<longrightarrow> fst (disallow_in_graph e (Ref f) r) = Inl AssertionError) \<and>
   (all_forbiddable e fn \<longrightarrow> fst (forbid_in_graph e fn r) = Inr (as_list fn)) \<and>
   (\<not> all_forbiddable e fn \<longrightarrow> (\<exists>err. fst (forbid_in_graph e fn r) = Inl err)) \<and>
   (\<not> callable (obj_of e f) \<longrightarrow> forbid_in_graph e (Ref f) r = (Inl AssertionError, r)) \<and>
   (callable (obj_of e f) \<longrightarrow> setattr_error (obj_of e f) = Some err' \<longrightarrow>
      forbid_in_graph e (Ref f) r = (Inl err', r))"
proof -
  have 1: "fst (allow_in_graph e fn r) = Inr y \<longrightarrow> y = as_list fn"
    using allow_result_shape(1) by blast
  have 2: "fst (disallow_in_graph e fn r) = Inr y \<longrightarrow> y = as_list fn"
    unfolding disallow_in_graph_def using disallow_result_shape(1) by blast
  have 3: "fst (forbid_in_graph e fn r) = Inr y \<longrightarrow> y = as_list fn"
    using forbid_result_shape(1) by blast
  have 4: "allow_in_graph e (PyTuple fns) r = allow_in_graph e (PyList fns) r"
    "disallow_in_graph e (PyTuple fns) r = disallow_in_graph e (PyList fns) r"
    "forbid_in_graph e (PyTuple fns) r = forbid_in_graph e (PyList fns) r"
    by (simp_all add: disallow_in_graph_def)
  have 5: "allow_in_graph e (PyList []) r = (Inr (PyList []), r)"
    "disallow_in_graph e (PyList []) r = (Inr (PyList []), r)"
    "forbid_in_graph e (PyList []) r = (Inr (PyList []), r)"
    by (simp_all add: disallow_in_graph_def)
  note 6 = allow_Cons [of e x xs r] disallow_Cons [of e x xs r] forbid_Cons [of e x xs r]
  note 7 = allow_total(1) [of e fn r]
  have 8: "callable (obj_of e f) \<longrightarrow> fst (is_allowed e f r) \<longrightarrow>
      fst (disallow_in_graph e (Ref f) r) = Inr (Ref f)"
    by (simp add: disallow_strict_ref)
  have 9: "callable (obj_of e f) \<longrightarrow> \<not> fst (is_allowed e f r) \<longrightarrow>
      fst (disallow_in_graph e (Ref f) r) = Inl IncorrectUsage"
    by (simp add: disallow_in_graph_def is_allowed_eq)
  have 10: "\<not> callable (obj_of e f) \<longrightarrow> fst (disallow_in_graph e (Ref f) r) = Inl AssertionError"
    by (simp add: disallow_in_graph_def)
  have 11: "all_forbiddable e fn \<longrightarrow> fst (forbid_in_graph e fn r) = Inr (as_list fn)"
    using forbid_total(1) [of e fn r] forbid_result_shape(1) [of e fn r] by blast
  have 12: "\<not> all_forbiddable e fn \<longrightarrow> (\<exists>err. fst (forbid_in_graph e fn r) = Inl err)"
    using forbid_total(1) [of e fn r] by (cases "fst (forbid_in_graph e fn r)") auto
  have 13: "\<not> callable (obj_of e f) \<longrightarrow> forbid_in_graph e (Ref f) r = (Inl AssertionError, r)"
    "callable (obj_of e f) \<longrightarrow> setattr_error (obj_of e f) = Some err' \<longrightarrow>
      forbid_in_graph e (Ref f) r = (Inl err', r)"
    by simp_all
  from 1 2 3 4 5 6 7 8 9 10 11 12 13 show ?thesis by blast
qed

theorem sequence_entry_points_witness:
  "fst (allow_in_graph demo_env (PyTuple [Ref 7, PyTuple [Ref 3]]) initial_registry) =
     Inr (PyList [Ref 7, PyList [Ref 3]]) \<and>
   PyList [Ref 7, PyList [Ref 3]] = as_list (PyTuple [Ref 7, PyTuple [Ref 3]]) \<and>
   fst (disallow_in_graph demo_env (PyTuple [Ref 3]) initial_registry) = Inr (PyList [Ref 3]) \<and>
   PyList [Ref 3] = as_list (PyTuple [Ref 3]) \<and>
   fst (forbid_in_graph demo_env (Ref 7) initial_registry) = Inr (Ref 7) \<and>
   Ref 7 = as_list (Ref 7) \<and>
   callable (obj_of demo_env 3) \<and> fst (is_allowed demo_env 3 initial_registry) \<and>
   fst (disallow_in_graph demo_env (Ref 3) initial_registry) = Inr (Ref 3) \<and>
   callable (obj_of demo_env 7) \<and> \<not> fst (is_allowed demo_env 7 initial_registry) \<and>
   fst (disallow_in_graph demo_env (Ref 7) initial_registry) = Inl IncorrectUsage \<and>
   \<not> callable (obj_of demo_env 6) \<and>
   fst (disallow_in_graph demo_env (Ref 6) initial_registry) = Inl AssertionError \<and>
   forbid_in_graph demo_env (Ref 6) initial_registry = (Inl AssertionError, initial_registry) \<and>
   all_forbiddable demo_env (PyTuple [Ref 7, Ref 3]) \<and>
   fst (forbid_in_graph demo_env (PyTuple [Ref 7, Ref 3]) initial_registry) =
     Inr (as_list (PyTuple [Ref 7, Ref 3])) \<and>
   \<not> all_forbiddable demo_env (PyList [Ref 7, Ref 16]) \<and>
   (\<exists>err. fst (forbid_in_graph demo_env (PyList [Ref 7, Ref 16]) initial_registry) = Inl err) \<and>
   callable (obj_of demo_env 16) \<and> setattr_error (obj_of demo_env 16) = Some TypeError \<and>
   forbid_in_graph demo_env (Ref 16) initial_registry = (Inl TypeError, initial_registry)"
proof -
  have a: "fst (allow_in_graph demo_env (PyTuple [Ref 7, PyTuple [Ref 3]]) initial_registry) =
     Inr (PyList [Ref 7, PyList [Ref 3]])"
    using demo_callable(1,2) by simp
  have "3 \<in> fst (allowed_call demo_env initial_registry)"
    "7 \<notin> fst (allowed_call demo_env initial_registry)"
    by (simp_all add: allowed_call_initial demo_disallowed_init domIff demo_names)
  then have i3: "fst (is_allowed demo_env 3 initial_registry)"
    and i7: "\<not> fst (is_allowed demo_env 7 initial_registry)"
    using demo_callable(5) by (simp_all add: is_allowed_eq)
  from i3 obtain r1 where "is_allowed demo_env 3 initial_registry = (True, r1)"
    by (cases "is_allowed demo_env 3 initial_registry") simp
  then have b: "fst (disallow_in_graph demo_env (PyTuple [Ref 3]) initial_registry) =
      Inr (PyList [Ref 3])"
    using demo_callable(1) by (simp add: disallow_in_graph_def)
  have c: "fst (forbid_in_graph demo_env (Ref 7) initial_registry) = Inr (Ref 7)"
    using demo_callable(2,4) by simp
  have o: "\<not> callable (obj_of demo_env 6)" "callable (obj_of demo_env 16)"
    "setattr_error (obj_of demo_env 16) = Some TypeError"
    "setattr_error (obj_of demo_env 3) = None"
    by (simp_all add: demo_fields demo_simps)
  have f1: "all_forbiddable demo_env (PyTuple [Ref 7, Ref 3])"
    using demo_callable(1,2,4) o(4) by simp
  have f2: "\<not> all_forbiddable demo_env (PyList [Ref 7, Ref 16])"
    using o(3) by simp
  have w1: "PyList [Ref 7, PyList [Ref 3]] = as_list (PyTuple [Ref 7, PyTuple [Ref 3]])"
    using sequence_entry_points [of demo_env "PyTuple [Ref 7, PyTuple [Ref 3]]" initial_registry
      "PyList [Ref 7, PyList [Ref 3]]", THEN conjunct1] a by blast
  have w2: "PyList [Ref 3] = as_list (PyTuple [Ref 3])"
    using sequence_entry_points [of demo_env "PyTuple [Ref 3]" initial_registry "PyList [Ref 3]",
      THEN conjunct2, THEN conjunct1] b by blast
  have w3: "Ref 7 = as_list (Ref 7)"
    using sequence_entry_points [of demo_env "Ref 7" initial_registry "Ref 7",
      THEN conjunct2, THEN conjunct2, THEN conjunct1] c
    by blast
  have w4: "fst (disallow_in_graph demo_env (Ref 3) initial_registry) = Inr (Ref 3)"
    using sequence_entry_points [of demo_env _ initial_registry _ _ _ _ 3,
      THEN conjunct2, THEN conjunct2, THEN conjunct2, THEN conjunct2, THEN conjunct2,
      THEN conjunct2, THEN conjunct2, THEN conjunct2, THEN conjunct2, THEN conjunct2,
      THEN conjunct2, THEN conjunct2, THEN conjunct2, THEN conjunct1]
      demo_callable(1) i3 by blast
  have w5: "fst (disallow_in_graph demo_env (Ref 7) initial_registry) = Inl IncorrectUsage"
    using sequence_entry_points [of demo_env _ initial_registry _ _ _ _ 7,
      THEN conjunct2, THEN conjunct2, THEN conjunct2, THEN conjunct2, THEN conjunct2,
      THEN conjunct2, THEN conjunct2, THEN conjunct2, THEN conjunct2, THEN conjunct2,
      THEN conjunct2, THEN conjunct2, THEN conjunct2, THEN conjunct2, THEN conjunct1]
      demo_callable(2) i7 by blast
  have w6: "fst (disallow_in_graph demo_env (Ref 6) initial_registry) = Inl AssertionError"
    using sequence_entry_points [of demo_env _ initial_registry _ _ _ _ 6,
      THEN conjunct2, THEN conjunct2, THEN conjunct2, THEN conjunct2, THEN conjunct2,
      THEN conjunct2, THEN conjunct2, THEN conjunct2, THEN conjunct2, THEN conjunct2,
      THEN conjunct2, THEN conjunct2, THEN conjunct2, THEN conjunct2, THEN conjunct2,
      THEN conjunct1] o(1)
    by blast
  have w7: "forbid_in_graph demo_env (Ref 6) initial_registry =
      (Inl AssertionError, initial_registry)"
    using sequence_entry_points [of demo_env _ initial_registry _ _ _ _ 6,
      THEN conjunct2, THEN conjunct2, THEN conjunct2, THEN conjunct2, THEN conjunct2,
      THEN conjunct2, THEN conjunct2, THEN conjunct2, THEN conjunct2, THEN conjunct2,
      THEN conjunct2, THEN conjunct2, THEN conjunct2, THEN conjunct2, THEN conjunct2,
      THEN conjunct2, THEN conjunct2, THEN conjunct2, THEN conjunct1] o(1)
    by blast
  have w8: "fst (forbid_in_graph demo_env (PyTuple [Ref 7, Ref 3]) initial_registry) =
      Inr (as_list (PyTuple [Ref 7, Ref 3]))"
    using sequence_entry_points [of demo_env "PyTuple [Ref 7, Ref 3]" initial_registry, THEN conjunct2, THEN conjunct2, THEN conjunct2, THEN conjunct2, THEN conjunct2, THEN conjunct2, THEN conjunct2, THEN conjunct2, THEN conjunct2, THEN conjunct2, THEN conjunct2, THEN conjunct2, THEN conjunct2, THEN conjunct2, THEN conjunct2, THEN conjunct2, THEN conjunct1]
      f1 by blast
  have w9: "\<exists>err. fst (forbid_in_graph demo_env (PyList [Ref 7, Ref 16]) initial_registry) =
      Inl err"
    using sequence_entry_points [of demo_env "PyList [Ref 7, Ref 16]" initial_registry, THEN conjunct2, THEN conjunct2, THEN conjunct2, THEN conjunct2, THEN conjunct2, THEN conjunct2, THEN conjunct2, THEN conjunct2, THEN conjunct2, THEN conjunct2, THEN conjunct2, THEN conjunct2, THEN conjunct2, THEN conjunct2, THEN conjunct2, THEN conjunct2, THEN conjunct2, THEN conjunct1]
      f2 by blast
  have w10: "forbid_in_graph demo_env (Ref 16) initial_registry = (Inl TypeError, initial_registry)"
    using sequence_entry_points [of demo_env _ initial_registry _ _ _ _ 16 TypeError,
      THEN conjunct2, THEN conjunct2, THEN conjunct2, THEN conjunct2, THEN conjunct2,
      THEN conjunct2, THEN conjunct2, THEN conjunct2, THEN conjunct2, THEN conjunct2,
      THEN conjunct2, THEN conjunct2, THEN conjunct2, THEN conjunct2, THEN conjunct2,
      THEN conjunct2, THEN conjunct2, THEN conjunct2, THEN conjunct2]
      o(2) o(3) by blast
  from a b c w1 w2 w3 w4 w5 w6 w7 w8 w9 w10 i3 i7 o f1 f2 demo_callable(1) demo_callable(2)
  show ?thesis by blast
qed

end
